theory Spec2Isabelle
  imports Complex_Main
begin

section \<open>Python values used by the screenshot pipeline\<close>

text \<open>
  Strings are lists of characters with code points below 256; the string helpers below
  are Python's \<^verbatim>\<open>str.strip\<close>, \<^verbatim>\<open>str.lower\<close> and
  \<^verbatim>\<open>str.startswith\<close> on that range.
\<close>

definition py_isspace :: "char \<Rightarrow> bool" where
  "py_isspace c =
     (let n = (of_char c :: nat)
      in (9 \<le> n \<and> n \<le> 13) \<or> (28 \<le> n \<and> n \<le> 32) \<or> n = 133 \<or> n = 160)"

definition py_strip :: "string \<Rightarrow> string" where
  "py_strip s = rev (dropWhile py_isspace (rev (dropWhile py_isspace s)))"

definition lower_char :: "char \<Rightarrow> char" where
  "lower_char c =
     (let n = (of_char c :: nat)
      in if (65 \<le> n \<and> n \<le> 90) \<or> (192 \<le> n \<and> n \<le> 222 \<and> n \<noteq> 215)
         then char_of (n + 32) else c)"

definition py_lower :: "string \<Rightarrow> string" where
  "py_lower s = map lower_char s"

definition startswith :: "string \<Rightarrow> string \<Rightarrow> bool" where
  "startswith s p = (take (length p) s = p)"

text \<open>
  The exceptions that the modelled code can meet. \<open>PlaywrightTimeoutError\<close> and
  \<open>PlaywrightError\<close> are the two kinds the capture routine tells apart;
  \<open>ApiError\<close> stands for any exception of the Drive and Sheets clients.
\<close>

datatype error =
    AttributeError | TypeError | ValueError | OverflowError | FileNotFoundError
  | PlaywrightTimeoutError | PlaywrightError | ApiError | OSError | UnboundLocalError

text \<open>
  The result of \<^verbatim>\<open>json.load\<close>. A dict is the list of its items (keys
  distinct, as in a Python dict). Floats are finite and carried exactly; rounding to a
  double is not modelled.
\<close>

datatype json =
    JNull
  | JBool bool
  | JInt int
  | JFloat rat
  | JStr string
  | JArr "json list"
  | JObj "(string \<times> json) list"

text \<open>Python truthiness of a JSON value (\<^verbatim>\<open>bool(v)\<close>).\<close>

fun truthy :: "json \<Rightarrow> bool" where
  "truthy JNull = False"
| "truthy (JBool b) = b"
| "truthy (JInt i) = (i \<noteq> 0)"
| "truthy (JFloat r) = (r \<noteq> 0)"
| "truthy (JStr s) = (s \<noteq> [])"
| "truthy (JArr xs) = (xs \<noteq> [])"
| "truthy (JObj kv) = (kv \<noteq> [])"

text \<open>\<^verbatim>\<open>d.get(k)\<close> and \<^verbatim>\<open>d.get(k, default)\<close>.\<close>

definition dict_get :: "(string \<times> json) list \<Rightarrow> string \<Rightarrow> json" where
  "dict_get sc k = (case map_of sc k of None \<Rightarrow> JNull | Some v \<Rightarrow> v)"

definition dict_get_default :: "(string \<times> json) list \<Rightarrow> string \<Rightarrow> json \<Rightarrow> json" where
  "dict_get_default sc k d = (case map_of sc k of None \<Rightarrow> d | Some v \<Rightarrow> v)"

text \<open>
  \<^verbatim>\<open>float(v)\<close>. Parsing a string is Python's builtin and is taken as the
  parameter \<open>pf\<close> (\<open>None\<close> where it raises ValueError). An int too large for a
  double raises OverflowError.
\<close>

fun py_float :: "(string \<Rightarrow> rat option) \<Rightarrow> json \<Rightarrow> error + rat" where
  "py_float pf JNull = Inl TypeError"
| "py_float pf (JBool b) = Inr (if b then 1 else 0)"
| "py_float pf (JInt i) =
     (if \<bar>i\<bar> \<ge> 2 ^ 1024 - 2 ^ 970 then Inl OverflowError else Inr (of_int i))"
| "py_float pf (JFloat r) = Inr r"
| "py_float pf (JStr s) = (case pf s of None \<Rightarrow> Inl ValueError | Some r \<Rightarrow> Inr r)"
| "py_float pf (JArr xs) = Inl TypeError"
| "py_float pf (JObj kv) = Inl TypeError"

text \<open>
  A Python float as \<^verbatim>\<open>float(os.getenv(...))\<close> can give it: a finite value (carried
  exactly), an infinity or NaN. \<^verbatim>\<open>time.sleep\<close> turns its argument into a signed
  64-bit count of nanoseconds and then asks for a non-negative one: it raises ValueError
  on NaN and on a negative length, OverflowError on a length out of that range, and
  returns otherwise.
\<close>

datatype pyfloat = Finite rat | PosInf | NegInf | NaN

fun time_sleep :: "pyfloat \<Rightarrow> error option" where
  "time_sleep NaN = Some ValueError"
| "time_sleep PosInf = Some OverflowError"
| "time_sleep NegInf = Some OverflowError"
| "time_sleep (Finite secs) =
     (if \<bar>secs\<bar> * 10 ^ 9 \<ge> 2 ^ 63 then Some OverflowError
      else if secs < 0 then Some ValueError
      else None)"

section \<open>Cookie translation (\<^verbatim>\<open>load_playwright_cookies\<close>)\<close>

text \<open>The dict handed to the browser context for one cookie; \<open>expires\<close> is an optional key.\<close>

record pcookie =
  name :: json
  val :: json
  domain :: json
  path :: json
  httpOnly :: json
  secure :: json
  sameSite :: string
  expires :: "rat option"

text \<open>The guard of the loop body: \<^verbatim>\<open>not sc.get('name') or sc.get('value') is None\<close>.\<close>

definition missing_name_or_value :: "(string \<times> json) list \<Rightarrow> bool" where
  "missing_name_or_value sc =
     (\<not> truthy (dict_get sc ''name'') \<or> dict_get sc ''value'' = JNull)"

text \<open>The value of \<^verbatim>\<open>valid_samesite_for_playwright\<close> after the if/elif chain.\<close>

definition valid_samesite_for_playwright :: "(string \<times> json) list \<Rightarrow> string" where
  "valid_samesite_for_playwright sc =
     (case dict_get sc ''sameSite'' of
        JStr s \<Rightarrow>
          (let samesite_lower = py_lower s
           in if samesite_lower = ''strict'' then ''Strict''
              else if samesite_lower = ''lax'' then ''Lax''
              else if samesite_lower = ''none'' then ''None''
              else ''Lax'')
      | JNull \<Rightarrow>
          (if truthy (dict_get_default sc ''secure'' (JBool False)) then ''None'' else ''Lax'')
      | _ \<Rightarrow> ''Lax'')"

text \<open>
  The leading-dot normalisation. A truthy domain that is not a string has no
  \<^verbatim>\<open>startswith\<close> and raises AttributeError.
\<close>

definition strip_leading_dot :: "json \<Rightarrow> error + json" where
  "strip_leading_dot d =
     (if truthy d then
        (case d of
           JStr s \<Rightarrow> Inr (if startswith s ''.'' then JStr (drop 1 s) else d)
         | _ \<Rightarrow> Inl AttributeError)
      else Inr d)"

text \<open>
  One iteration of the loop: \<open>Inr None\<close> when the record is skipped,
  \<open>Inr (Some pc)\<close> when \<open>pc\<close> is appended, \<open>Inl e\<close> when the iteration raises.
  An element that is not a dict has no \<^verbatim>\<open>get\<close>.
\<close>

fun convert_cookie :: "(string \<Rightarrow> rat option) \<Rightarrow> json \<Rightarrow> error + pcookie option" where
  "convert_cookie pf (JObj sc) =
     (if missing_name_or_value sc then Inr None
      else
        let pc = \<lparr> name = dict_get sc ''name'',
                   val = dict_get sc ''value'',
                   domain = dict_get sc ''domain'',
                   path = dict_get_default sc ''path'' (JStr ''/''),
                   httpOnly = dict_get_default sc ''httpOnly'' (JBool False),
                   secure = dict_get_default sc ''secure'' (JBool False),
                   sameSite = valid_samesite_for_playwright sc,
                   expires = None \<rparr>
        in case (if dict_get sc ''expirationDate'' = JNull then Inr None
                 else map_sum id Some (py_float pf (dict_get sc ''expirationDate''))) of
             Inl e \<Rightarrow> Inl e
           | Inr ex \<Rightarrow>
               (case strip_leading_dot (domain pc) of
                  Inl e \<Rightarrow> Inl e
                | Inr d \<Rightarrow> Inr (Some (pc\<lparr>expires := ex, domain := d\<rparr>))))"
| "convert_cookie pf _ = Inl AttributeError"

text \<open>
  The loop over \<^verbatim>\<open>selenium_cookies\<close> with its accumulator
  \<^verbatim>\<open>playwright_cookies\<close>; the first exception ends it.
\<close>

fun convert_loop :: "(string \<Rightarrow> rat option) \<Rightarrow> json list \<Rightarrow> pcookie list \<Rightarrow> error + pcookie list" where
  "convert_loop pf [] playwright_cookies = Inr playwright_cookies"
| "convert_loop pf (sc # rest) playwright_cookies =
     (case convert_cookie pf sc of
        Inl e \<Rightarrow> Inl e
      | Inr None \<Rightarrow> convert_loop pf rest playwright_cookies
      | Inr (Some pc) \<Rightarrow> convert_loop pf rest (playwright_cookies @ [pc]))"

definition translate_cookies :: "(string \<Rightarrow> rat option) \<Rightarrow> json list \<Rightarrow> error + pcookie list" where
  "translate_cookies pf selenium_cookies = convert_loop pf selenium_cookies []"

text \<open>
  \<^verbatim>\<open>load_playwright_cookies\<close> on the parsed file (\<open>None\<close>: the file is
  missing or is not JSON). The result is the list given to
  \<^verbatim>\<open>context.add_cookies\<close>, or \<open>None\<close> when that call is not made: every
  exception is caught by the outer handler, which logs and returns.
\<close>

definition load_playwright_cookies :: "(string \<Rightarrow> rat option) \<Rightarrow> json option \<Rightarrow> pcookie list option" where
  "load_playwright_cookies pf file =
     (case file of
        Some (JArr selenium_cookies) \<Rightarrow>
          (case translate_cookies pf selenium_cookies of
             Inl e \<Rightarrow> None
           | Inr playwright_cookies \<Rightarrow>
               if playwright_cookies \<noteq> [] then Some playwright_cookies else None)
      | _ \<Rightarrow> None)"

text \<open>A float parser that accepts no string, for inputs without string-valued expiry.\<close>

definition no_float_strings :: "string \<Rightarrow> rat option" where
  "no_float_strings s = None"

text \<open>A record that passes the guard: a dict with a truthy name and a value that is not null.\<close>

fun has_name_and_value :: "json \<Rightarrow> bool" where
  "has_name_and_value (JObj sc) = (\<not> missing_name_or_value sc)"
| "has_name_and_value _ = False"

section \<open>Screenshot capture (\<^verbatim>\<open>take_playwright_screenshot\<close>)\<close>

text \<open>
  A call into the browser returns, raises Playwright's TimeoutError, or raises another
  exception. The environment of one capture fixes the outcome of each call the routine
  may make, and what \<^verbatim>\<open>page.is_closed()\<close> answers when the handlers ask
  (\<open>closed_early\<close>: the browser closed the page by itself). \<^verbatim>\<open>page.close()\<close>
  and the logging calls are taken to return.
\<close>

datatype outcome = Ok | TimedOut | Failed

definition raises :: "outcome \<Rightarrow> error option" where
  "raises oc = (case oc of Ok \<Rightarrow> None | TimedOut \<Rightarrow> Some PlaywrightTimeoutError
                | Failed \<Rightarrow> Some PlaywrightError)"

record capture_env =
  new_page :: outcome
  goto :: outcome
  click :: outcome
  settle :: outcome
  dims :: outcome
  shot :: outcome
  err_shot :: outcome
  closed_early :: bool

text \<open>A local file: directory and file name. The error screenshot is a sibling file.\<close>

type_synonym fpath = "string \<times> string"

definition error_screenshot_path :: "fpath \<Rightarrow> fpath" where
  "error_screenshot_path output_path = (fst output_path, ''error_'' @ snd output_path)"

text \<open>
  The trace of calls made to the browser, the spreadsheet, the drive, the file system
  and the clock, with the warnings and errors logged (each by a short form of its
  message). Informational log lines and console prints are left out.
\<close>

datatype event =
    NewPage
  | Goto string
  | ClickConsent
  | WaitForTimeout
  | Evaluate
  | Screenshot fpath
  | ClosePage
  | SheetGet nat
  | Upload fpath
  | SheetUpdate nat string
  | Remove fpath
  | Sleep pyfloat
  | LogWarning string
  | LogError string

datatype page_status = NoPage | PageOpen | PageClosed

text \<open>The inner try around the consent click: both handlers log a warning and go on.\<close>

definition consent_try :: "capture_env \<Rightarrow> error option \<times> event list" where
  "consent_try env =
     (case raises (click env) of
        Some e \<Rightarrow> (Some e, [ClickConsent])
      | None \<Rightarrow> (raises (settle env), [ClickConsent, WaitForTimeout]))"

definition consent_click :: "capture_env \<Rightarrow> event list" where
  "consent_click env =
     (case consent_try env of
        (None, evs) \<Rightarrow> evs
      | (Some e, evs) \<Rightarrow>
          evs @ [LogWarning (if e = PlaywrightTimeoutError
                             then ''Cookie consent button not found or timed out''
                             else ''Could not click cookie consent button'')])"

text \<open>The inner try around the page-dimension probe.\<close>

definition page_dimensions :: "capture_env \<Rightarrow> event list" where
  "page_dimensions env =
     (case raises (dims env) of
        None \<Rightarrow> [Evaluate]
      | Some e \<Rightarrow> [Evaluate, LogWarning ''Could not get page dimensions''])"

text \<open>
  The body of the outer try: the exception that leaves it (if any), whether
  \<^verbatim>\<open>page\<close> was assigned, the files and the calls made.
\<close>

definition capture_try :: "capture_env \<Rightarrow> string \<Rightarrow> fpath \<Rightarrow> fpath set \<Rightarrow>
    error option \<times> bool \<times> fpath set \<times> event list" where
  "capture_try env url output_path fs =
     (case raises (new_page env) of
        Some e \<Rightarrow> (Some e, False, fs, [NewPage])
      | None \<Rightarrow>
          (case raises (goto env) of
             Some e \<Rightarrow> (Some e, True, fs, [NewPage, Goto url])
           | None \<Rightarrow>
               (let evs = [NewPage, Goto url] @ consent_click env @ page_dimensions env
                           @ [Screenshot output_path]
                in case raises (shot env) of
                     Some e \<Rightarrow> (Some e, True, fs, evs)
                   | None \<Rightarrow> (None, True, insert output_path fs, evs))))"

text \<open>
  What \<^verbatim>\<open>page\<close> and \<^verbatim>\<open>page.is_closed()\<close> tell the handlers and the
  finally block.
\<close>

definition page_status_of :: "capture_env \<Rightarrow> bool \<Rightarrow> page_status" where
  "page_status_of env page =
     (if \<not> page then NoPage else if closed_early env then PageClosed else PageOpen)"

text \<open>The two outer handlers: log, try the error screenshot on a page that is still open.\<close>

definition capture_except :: "capture_env \<Rightarrow> error \<Rightarrow> bool \<Rightarrow> fpath \<Rightarrow> fpath set \<Rightarrow>
    fpath set \<times> event list" where
  "capture_except env e page output_path fs =
     (let logged = [LogError (if e = PlaywrightTimeoutError then ''Playwright timed out''
                              else ''An error occurred with Playwright'')]
      in if page_status_of env page = PageOpen then
           (case raises (err_shot env) of
              None \<Rightarrow> (insert (error_screenshot_path output_path) fs,
                         logged @ [Screenshot (error_screenshot_path output_path)])
            | Some e' \<Rightarrow> (fs, logged @ [Screenshot (error_screenshot_path output_path),
                                          LogError ''Could not take error screenshot'']))
         else (fs, logged))"

text \<open>The finally block: \<^verbatim>\<open>if page and not page.is_closed(): page.close()\<close>.\<close>

definition capture_finally :: "page_status \<Rightarrow> page_status \<times> event list" where
  "capture_finally status = (if status = PageOpen then (PageClosed, [ClosePage]) else (status, []))"

record capture_result =
  captured :: bool
  page_state :: page_status
  files_after :: "fpath set"
  events :: "event list"

definition take_playwright_screenshot :: "capture_env \<Rightarrow> string \<Rightarrow> fpath \<Rightarrow> fpath set \<Rightarrow>
    capture_result" where
  "take_playwright_screenshot env url output_path fs =
     (case capture_try env url output_path fs of
        (exc, page, fs1, evs) \<Rightarrow>
          (let handled = (case exc of
                            None \<Rightarrow> (True, fs1, evs)
                          | Some e \<Rightarrow>
                              (case capture_except env e page output_path fs1 of
                                 (fs2, evs2) \<Rightarrow> (False, fs2, evs @ evs2)));
               closing = capture_finally (page_status_of env page)
           in \<lparr> captured = fst handled,
                page_state = fst closing,
                files_after = fst (snd handled),
                events = snd (snd handled) @ snd closing \<rparr>))"

section \<open>The orchestrator loop (\<^verbatim>\<open>main\<close>)\<close>

text \<open>
  \<^verbatim>\<open>is_url_processed\<close> on the answer of the sheet (\<open>None\<close>: the request raised,
  which the function logs before it answers False).
\<close>

definition is_url_processed :: "string list list option \<Rightarrow> bool" where
  "is_url_processed answer =
     (case answer of
        None \<Rightarrow> False
      | Some values \<Rightarrow>
          (case values of
             [] \<Rightarrow> False
           | row # _ \<Rightarrow>
               (case row of
                  [] \<Rightarrow> False
                | cell # _ \<Rightarrow> startswith (py_strip cell) ''https://drive.google.com'')))"

definition marker_check :: "nat \<Rightarrow> string list list option \<Rightarrow> event list" where
  "marker_check sheet_row_number answer =
     SheetGet sheet_row_number #
       (if answer = None then [LogError ''Error checking if URL is processed''] else [])"

text \<open>The URL check of the loop: \<^verbatim>\<open>not url or not url.strip().startswith((...))\<close>.\<close>

definition invalid_url :: "string \<Rightarrow> bool" where
  "invalid_url url =
     (url = [] \<or> \<not> (startswith (py_strip url) ''http://'' \<or> startswith (py_strip url) ''https://''))"

text \<open>
  What the outside world answers while one row is processed: the sheet's answer for the
  marker cell, the file name from \<^verbatim>\<open>generate_screenshot_filename\<close> (it depends on
  the clock; \<open>None\<close> when \<^verbatim>\<open>urlparse\<close> raises ValueError, as it does on an
  unmatched bracket in the host, for example \<^verbatim>\<open>http://[\<close>, so this depends on
  the row's URL and not on the state of a service), the browser, the link
  returned by the upload (\<open>None\<close>: it raised), and whether the sheet update and
  \<^verbatim>\<open>os.remove\<close> return.
\<close>

record row_env =
  marker :: "string list list option"
  fname :: "string option"
  capture :: capture_env
  upload :: "string option"
  update_ok :: bool
  remove_ok :: bool

record config =
  screenshots_dir :: string
  start_row_in_sheet :: nat
  inter_url_delay :: pyfloat

record loop_state =
  successful_screenshots :: nat
  failed_screenshots :: nat
  skipped_urls :: nat
  files :: "fpath set"
  trace :: "event list"

text \<open>
  \<^verbatim>\<open>upload_file\<close> and \<^verbatim>\<open>update_metadata\<close>: both log and re-raise; the
  log line is put in the trace by the caller below.
\<close>

definition upload_file :: "row_env \<Rightarrow> fpath \<Rightarrow> fpath set \<Rightarrow> error + string" where
  "upload_file env file_path fs =
     (if file_path \<notin> fs then Inl FileNotFoundError
      else case upload env of None \<Rightarrow> Inl ApiError | Some web_link \<Rightarrow> Inr web_link)"

definition update_metadata :: "row_env \<Rightarrow> error + unit" where
  "update_metadata env = (if update_ok env then Inr () else Inl ApiError)"

text \<open>The try block after a successful capture: upload, then write the link.\<close>

definition upload_and_record :: "row_env \<Rightarrow> nat \<Rightarrow> fpath \<Rightarrow> fpath set \<Rightarrow> error option \<times> event list" where
  "upload_and_record env current_sheet_row screenshot_path fs =
     (case upload_file env screenshot_path fs of
        Inl e \<Rightarrow> (Some e, [Upload screenshot_path, LogError ''Error uploading file''])
      | Inr web_link \<Rightarrow>
          (case update_metadata env of
             Inl e \<Rightarrow> (Some e, [Upload screenshot_path, SheetUpdate current_sheet_row web_link,
                                  LogError ''Error updating sheet''])
           | Inr u \<Rightarrow> (None, [Upload screenshot_path, SheetUpdate current_sheet_row web_link])))"

text \<open>The finally block: remove the screenshot if it is there; an OSError is logged.\<close>

definition cleanup :: "row_env \<Rightarrow> fpath \<Rightarrow> fpath set \<Rightarrow> fpath set \<times> event list" where
  "cleanup env screenshot_path fs =
     (if screenshot_path \<in> fs then
        (if remove_ok env then (fs - {screenshot_path}, [Remove screenshot_path])
         else (fs, [Remove screenshot_path, LogError ''Error removing local screenshot'']))
      else (fs, []))"

text \<open>
  The branch taken when the capture returned True: the try block with its handler (which
  counts the row) and its finally block.
\<close>

definition after_capture :: "row_env \<Rightarrow> nat \<Rightarrow> fpath \<Rightarrow> loop_state \<Rightarrow> loop_state" where
  "after_capture env current_sheet_row screenshot_path st =
     (case upload_and_record env current_sheet_row screenshot_path (files st) of
        (exc, evs) \<Rightarrow>
          (let st' = (case exc of
                        None \<Rightarrow> st\<lparr>successful_screenshots := successful_screenshots st + 1,
                                    trace := trace st @ evs\<rparr>
                      | Some e \<Rightarrow> st\<lparr>failed_screenshots := failed_screenshots st + 1,
                                      trace := trace st @ evs @
                                        [LogError ''Error during Drive upload or Sheet update'']\<rparr>)
           in case cleanup env screenshot_path (files st') of
                (fs, evs') \<Rightarrow> st'\<lparr>files := fs, trace := trace st' @ evs'\<rparr>))"

text \<open>
  The delay at the bottom of the loop body: the call made, and the exception with which
  \<^verbatim>\<open>time.sleep\<close> leaves the iteration (no handler of the loop body covers it).
\<close>

definition delay :: "config \<Rightarrow> nat \<Rightarrow> nat \<Rightarrow> error option \<times> event list" where
  "delay cfg current_loop_index total_urls =
     (if current_loop_index < total_urls
      then (time_sleep (inter_url_delay cfg), [Sleep (inter_url_delay cfg)])
      else (None, []))"

text \<open>
  The loop body from the capture on, for a row that passed both checks and got its file
  name; the first component is the exception of the delay, if it raised.
\<close>

definition capture_and_store :: "config \<Rightarrow> nat \<Rightarrow> nat \<Rightarrow> string \<Rightarrow> row_env \<Rightarrow> string \<Rightarrow>
    loop_state \<Rightarrow> error option \<times> loop_state" where
  "capture_and_store cfg total_urls i url env screenshot_filename st =
     (let screenshot_path = (screenshots_dir cfg, screenshot_filename);
          r = take_playwright_screenshot (capture env) url screenshot_path (files st);
          st1 = st\<lparr>files := files_after r, trace := trace st @ events r\<rparr>;
          st2 = (if captured r then after_capture env (start_row_in_sheet cfg + i) screenshot_path st1
                 else st1\<lparr>failed_screenshots := failed_screenshots st1 + 1,
                          trace := trace st1 @ [LogError ''Failed to capture screenshot'']\<rparr>);
          waited = delay cfg (i + 1) total_urls
      in (fst waited, st2\<lparr>trace := trace st2 @ snd waited\<rparr>))"

text \<open>
  One iteration of the loop for the row with 0-based index \<open>i\<close>. The first component is
  the exception that leaves the iteration and ends the loop; \<open>None\<close> when the iteration
  reaches its end or a \<^verbatim>\<open>continue\<close>.
\<close>

definition process_row :: "config \<Rightarrow> nat \<Rightarrow> nat \<Rightarrow> string \<Rightarrow> row_env \<Rightarrow> loop_state \<Rightarrow>
    error option \<times> loop_state" where
  "process_row cfg total_urls i url env st =
     (if invalid_url url then
        (None, st\<lparr>failed_screenshots := failed_screenshots st + 1,
                  trace := trace st @ [LogError ''Invalid or empty URL format'']\<rparr>)
      else
        (let checked = st\<lparr>trace := trace st @ marker_check (start_row_in_sheet cfg + i) (marker env)\<rparr>
         in if is_url_processed (marker env) then
              (None, checked\<lparr>skipped_urls := skipped_urls checked + 1\<rparr>)
            else
              (case fname env of
                 None \<Rightarrow> (Some ValueError, checked)
               | Some screenshot_filename \<Rightarrow>
                   capture_and_store cfg total_urls i url env screenshot_filename checked)))"

text \<open>The for loop: rows in order, each with its environment; an exception ends it.\<close>

fun run_rows :: "config \<Rightarrow> nat \<Rightarrow> nat \<Rightarrow> (string \<times> row_env) list \<Rightarrow> loop_state \<Rightarrow>
    error option \<times> loop_state" where
  "run_rows cfg total_urls i [] st = (None, st)"
| "run_rows cfg total_urls i ((url, env) # rest) st =
     (case process_row cfg total_urls i url env st of
        (Some e, st') \<Rightarrow> (Some e, st')
      | (None, st') \<Rightarrow> run_rows cfg total_urls (i + 1) rest st')"

definition initial_state :: "fpath set \<Rightarrow> loop_state" where
  "initial_state fs = \<lparr> successful_screenshots = 0, failed_screenshots = 0, skipped_urls = 0,
                        files = fs, trace = [] \<rparr>"

definition main_loop :: "config \<Rightarrow> (string \<times> row_env) list \<Rightarrow> fpath set \<Rightarrow> error option \<times> loop_state" where
  "main_loop cfg urls_to_process fs =
     run_rows cfg (length urls_to_process) 0 urls_to_process (initial_state fs)"

text \<open>
  The summary printed by the finally block of \<^verbatim>\<open>main\<close>, whatever ended the loop.
  With no URL to process \<^verbatim>\<open>main\<close> returns before the total and the counters are
  bound, and the finally block raises instead of printing.
\<close>

record summary =
  sum_total :: nat
  sum_successful :: nat
  sum_skipped :: nat
  sum_failed :: nat

definition final_summary :: "config \<Rightarrow> (string \<times> row_env) list \<Rightarrow> fpath set \<Rightarrow> error + summary" where
  "final_summary cfg urls_to_process fs =
     (if urls_to_process = [] then Inl UnboundLocalError
      else
        let st = snd (main_loop cfg urls_to_process fs)
        in Inr \<lparr> sum_total = length urls_to_process,
                 sum_successful = successful_screenshots st,
                 sum_skipped = skipped_urls st,
                 sum_failed = failed_screenshots st \<rparr>)"

subsection \<open>The spreadsheet behind the rows\<close>

text \<open>
  The sheet as the run sees it: the answer to the request for the URL range (one list of
  cells per sheet row from the range's first row on, \<open>None\<close> when the request raises) and
  the text of the marker cell in column C of each sheet row. Within a run every iteration
  reads its marker cell before any write to that cell, so the sheet is read as it was at
  the start.
\<close>

record sheet =
  url_values :: "string list list option"
  marker_col :: "nat \<Rightarrow> string"

text \<open>
  \<^verbatim>\<open>read_urls\<close>: the first cell of every row that has one which is not blank; an
  exception is logged and gives the empty list. The position of a URL in the result is
  what the loop adds to the start row, whatever rows were left out before it.
\<close>

definition blank_row :: "string list \<Rightarrow> bool" where
  "blank_row row = (row = [] \<or> py_strip (hd row) = [])"

definition read_urls :: "string list list option \<Rightarrow> string list" where
  "read_urls answer =
     (case answer of
        None \<Rightarrow> []
      | Some values \<Rightarrow> map hd (filter (\<lambda>row. \<not> blank_row row) values))"

text \<open>The answer to the request for one cell: an empty cell comes without values.\<close>

definition sheets_get :: "bool \<Rightarrow> string \<Rightarrow> string list list option" where
  "sheets_get returns cell = (if returns then Some (if cell = [] then [] else [[cell]]) else None)"

text \<open>
  What the services answer during one iteration, the content of the sheet apart; the
  iteration with index \<open>i\<close> asks for the marker cell of sheet row \<open>start_row + i\<close>.
\<close>

record row_services =
  sheet_read_ok :: bool
  file_name :: "string option"
  browser :: capture_env
  drive_link :: "string option"
  sheet_write_ok :: bool
  file_remove_ok :: bool

definition row_env_at :: "config \<Rightarrow> sheet \<Rightarrow> nat \<Rightarrow> row_services \<Rightarrow> row_env" where
  "row_env_at cfg sh i sv =
     \<lparr> marker = sheets_get (sheet_read_ok sv) (marker_col sh (start_row_in_sheet cfg + i)),
       fname = file_name sv, capture = browser sv, upload = drive_link sv,
       update_ok = sheet_write_ok sv, remove_ok = file_remove_ok sv \<rparr>"

definition rows_of :: "config \<Rightarrow> sheet \<Rightarrow> (nat \<Rightarrow> row_services) \<Rightarrow> (string \<times> row_env) list" where
  "rows_of cfg sh services =
     (let urls_to_process = read_urls (url_values sh)
      in map (\<lambda>i. (urls_to_process ! i, row_env_at cfg sh i (services i)))
           [0..<length urls_to_process])"

text \<open>\<^verbatim>\<open>main\<close> from the reading of the URLs on.\<close>

definition main :: "config \<Rightarrow> sheet \<Rightarrow> (nat \<Rightarrow> row_services) \<Rightarrow> fpath set \<Rightarrow> error + summary" where
  "main cfg sh services fs = final_summary cfg (rows_of cfg sh services) fs"

text \<open>The rows that get as far as the capture, and the delay events of a trace.\<close>

definition reaches_capture :: "string \<times> row_env \<Rightarrow> bool" where
  "reaches_capture r = (\<not> invalid_url (fst r) \<and> \<not> is_url_processed (marker (snd r)))"

fun is_sleep :: "event \<Rightarrow> bool" where
  "is_sleep (Sleep d) = True"
| "is_sleep _ = False"

text \<open>How many rows the three counters have counted, and a step that counts one row once.\<close>

definition counted :: "loop_state \<Rightarrow> nat" where
  "counted st = successful_screenshots st + skipped_urls st + failed_screenshots st"

definition counted_in_one :: "loop_state \<Rightarrow> loop_state \<Rightarrow> bool" where
  "counted_in_one st st' =
     ((successful_screenshots st' = successful_screenshots st + 1
         \<and> skipped_urls st' = skipped_urls st \<and> failed_screenshots st' = failed_screenshots st)
    \<or> (successful_screenshots st' = successful_screenshots st
         \<and> skipped_urls st' = skipped_urls st + 1 \<and> failed_screenshots st' = failed_screenshots st)
    \<or> (successful_screenshots st' = successful_screenshots st
         \<and> skipped_urls st' = skipped_urls st \<and> failed_screenshots st' = failed_screenshots st + 1))"

subsection \<open>Sample inputs\<close>

definition sample_config :: config where
  "sample_config = \<lparr> screenshots_dir = ''screenshots'', start_row_in_sheet = 2,
                      inter_url_delay = Finite 3 \<rparr>"

definition browser_ok :: capture_env where
  "browser_ok = \<lparr> new_page = Ok, goto = Ok, click = Ok, settle = Ok, dims = Ok, shot = Ok,
                   err_shot = Ok, closed_early = False \<rparr>"

definition row_ok :: row_env where
  "row_ok = \<lparr> marker = Some [], fname = Some ''screenshot_a.png'', capture = browser_ok,
               upload = Some ''https://drive.google.com/file/d/1'', update_ok = True,
               remove_ok = True \<rparr>"

definition row_done :: row_env where
  "row_done = row_ok\<lparr>marker := Some [[''https://drive.google.com/file/d/0'']]\<rparr>"

definition services_ok :: row_services where
  "services_ok = \<lparr> sheet_read_ok = True, file_name = Some ''screenshot_a.png'',
                    browser = browser_ok, drive_link = Some ''https://drive.google.com/file/d/1'',
                    sheet_write_ok = True, file_remove_ok = True \<rparr>"

text \<open>A sheet whose range starts at row 2, with no marker, and with a link in cell C2.\<close>

definition sheet_of :: "string list \<Rightarrow> sheet" where
  "sheet_of urls = \<lparr> url_values = Some (map (\<lambda>u. [u]) urls), marker_col = (\<lambda>r. []) \<rparr>"

definition sheet_marked :: "string list \<Rightarrow> sheet" where
  "sheet_marked urls =
     \<lparr> url_values = Some (map (\<lambda>u. [u]) urls),
       marker_col = (\<lambda>r. if r = 2 then ''https://drive.google.com/file/d/0'' else []) \<rparr>"

text \<open>A range whose first URL cell is blank; the URL of row 3 has a link in its marker cell.\<close>

definition sheet_gap :: sheet where
  "sheet_gap =
     \<lparr> url_values = Some [[], [''http://a'']],
       marker_col = (\<lambda>r. if r = 3 then ''https://drive.google.com/file/d/0'' else []) \<rparr>"

text \<open>The services when the file name of the first row cannot be generated.\<close>

definition services_first_unparsed :: "nat \<Rightarrow> row_services" where
  "services_first_unparsed i = (if i = 0 then services_ok\<lparr>file_name := None\<rparr> else services_ok)"

section \<open>Properties of the cookie translation\<close>

lemma convert_cookie_Some_has:
  "convert_cookie pf sc = Inr (Some pc) \<Longrightarrow> has_name_and_value sc"
  by (cases sc) (auto split: if_splits)

lemma convert_cookie_None_has:
  "convert_cookie pf sc = Inr None \<Longrightarrow> \<not> has_name_and_value sc"
  by (cases sc) (auto simp: Let_def split: if_splits sum.splits)

lemma convert_cookie_fields:
  assumes "convert_cookie pf (JObj sc) = Inr (Some pc)"
  shows "name pc = dict_get sc ''name''" and "val pc = dict_get sc ''value''"
    and "sameSite pc = valid_samesite_for_playwright sc"
    and "secure pc = dict_get_default sc ''secure'' (JBool False)"
  using assms by (auto simp: Let_def split: if_splits sum.splits)

lemma convert_loop_output:
  "convert_loop pf scs acc = Inr out \<Longrightarrow>
     \<exists>new. out = acc @ new \<and>
       list_all2 (\<lambda>sc pc. convert_cookie pf sc = Inr (Some pc)) (filter has_name_and_value scs) new"
proof (induction scs arbitrary: acc)
  case Nil
  then show ?case by simp
next
  case (Cons sc rest)
  show ?case
  proof (cases "convert_cookie pf sc")
    case (Inl e)
    with Cons.prems show ?thesis by simp
  next
    case (Inr r)
    show ?thesis
    proof (cases r)
      case None
      with Inr Cons.prems have "convert_loop pf rest acc = Inr out" by simp
      from Cons.IH[OF this] None Inr convert_cookie_None_has show ?thesis by auto
    next
      case (Some pc)
      with Inr Cons.prems have "convert_loop pf rest (acc @ [pc]) = Inr out" by simp
      from Cons.IH[OF this] obtain new where
        n: "out = (acc @ [pc]) @ new"
        "list_all2 (\<lambda>sc pc. convert_cookie pf sc = Inr (Some pc)) (filter has_name_and_value rest) new"
        by blast
      have "has_name_and_value sc" using Inr Some convert_cookie_Some_has by blast
      with n Inr Some show ?thesis by auto
    qed
  qed
qed

lemma convert_loop_raises:
  "(\<exists>e. convert_loop pf scs acc = Inl e) \<longleftrightarrow> (\<exists>sc\<in>set scs. \<exists>e. convert_cookie pf sc = Inl e)"
proof (induction scs arbitrary: acc)
  case Nil
  then show ?case by simp
next
  case (Cons sc rest)
  then show ?case by (auto split: sum.splits option.splits)
qed

lemma py_lower_STRICT: "py_lower ''STRICT'' = ''strict''"
  by code_simp

text \<open>
  Claim C1. A record that has a name and a value is not skipped, the cookie built from it
  carries the value of \<^verbatim>\<open>valid_samesite_for_playwright\<close>, and that value follows
  the policy table: a string that lower-cases to strict, lax or none gives Strict, Lax or
  None whatever the secure flag is; with sameSite absent or null the result is None when
  the secure flag is true (truthy) and Lax when it is false or absent.
\<close>

theorem sameSite_translation:
  assumes "\<not> missing_name_or_value sc"
  shows "convert_cookie pf (JObj sc) \<noteq> Inr None
       \<and> (\<forall>pc. convert_cookie pf (JObj sc) = Inr (Some pc) \<longrightarrow>
             sameSite pc = valid_samesite_for_playwright sc)
       \<and> (\<forall>s. dict_get sc ''sameSite'' = JStr s \<and> py_lower s = ''strict'' \<longrightarrow>
             valid_samesite_for_playwright sc = ''Strict'')
       \<and> (\<forall>s. dict_get sc ''sameSite'' = JStr s \<and> py_lower s = ''lax'' \<longrightarrow>
             valid_samesite_for_playwright sc = ''Lax'')
       \<and> (\<forall>s. dict_get sc ''sameSite'' = JStr s \<and> py_lower s = ''none'' \<longrightarrow>
             valid_samesite_for_playwright sc = ''None'')
       \<and> (dict_get sc ''sameSite'' = JNull \<and> truthy (dict_get_default sc ''secure'' (JBool False)) \<longrightarrow>
             valid_samesite_for_playwright sc = ''None'')
       \<and> (dict_get sc ''sameSite'' = JNull \<and> \<not> truthy (dict_get_default sc ''secure'' (JBool False)) \<longrightarrow>
             valid_samesite_for_playwright sc = ''Lax'')"
proof -
  have skipped: "convert_cookie pf (JObj sc) \<noteq> Inr None"
    using assms by (auto simp: Let_def split: sum.splits)
  have carried: "\<forall>pc. convert_cookie pf (JObj sc) = Inr (Some pc) \<longrightarrow>
      sameSite pc = valid_samesite_for_playwright sc"
    using convert_cookie_fields(3) by blast
  have table: "(\<forall>s. dict_get sc ''sameSite'' = JStr s \<and> py_lower s = ''strict'' \<longrightarrow>
             valid_samesite_for_playwright sc = ''Strict'')
       \<and> (\<forall>s. dict_get sc ''sameSite'' = JStr s \<and> py_lower s = ''lax'' \<longrightarrow>
             valid_samesite_for_playwright sc = ''Lax'')
       \<and> (\<forall>s. dict_get sc ''sameSite'' = JStr s \<and> py_lower s = ''none'' \<longrightarrow>
             valid_samesite_for_playwright sc = ''None'')
       \<and> (dict_get sc ''sameSite'' = JNull \<and> truthy (dict_get_default sc ''secure'' (JBool False)) \<longrightarrow>
             valid_samesite_for_playwright sc = ''None'')
       \<and> (dict_get sc ''sameSite'' = JNull \<and> \<not> truthy (dict_get_default sc ''secure'' (JBool False)) \<longrightarrow>
             valid_samesite_for_playwright sc = ''Lax'')"
    by (simp add: valid_samesite_for_playwright_def)
  from skipped carried table show ?thesis by blast
qed


text \<open>Three records with a name and a value: STRICT; no sameSite and secure; neither.\<close>

theorem sameSite_translation_witness:
  "\<not> missing_name_or_value [(''name'', JStr ''sid''), (''value'', JStr ''1''),
        (''sameSite'', JStr ''STRICT''), (''secure'', JBool False)]
   \<and> sameSite (the (projr (convert_cookie no_float_strings (JObj [(''name'', JStr ''sid''),
        (''value'', JStr ''1''), (''sameSite'', JStr ''STRICT''), (''secure'', JBool False)]))))
       = ''Strict''
   \<and> valid_samesite_for_playwright [(''name'', JStr ''sid''), (''value'', JStr ''1''),
        (''secure'', JBool True)] = ''None''
   \<and> valid_samesite_for_playwright [(''name'', JStr ''sid''), (''value'', JStr ''1'')] = ''Lax''"
proof -
  let ?a = "[(''name'', JStr ''sid''), (''value'', JStr ''1''),
        (''sameSite'', JStr ''STRICT''), (''secure'', JBool False)]"
  let ?b = "[(''name'', JStr ''sid''), (''value'', JStr ''1''), (''secure'', JBool True)]"
  let ?c = "[(''name'', JStr ''sid''), (''value'', JStr ''1'')]"
  have ha: "\<not> missing_name_or_value ?a" and hb: "\<not> missing_name_or_value ?b"
    and hc: "\<not> missing_name_or_value ?c"
    by (simp_all add: missing_name_or_value_def dict_get_def)
  have conv: "convert_cookie no_float_strings (JObj ?a) =
      Inr (Some \<lparr>name = JStr ''sid'', val = JStr ''1'', domain = JNull, path = JStr ''/'',
                 httpOnly = JBool False, secure = JBool False,
                 sameSite = valid_samesite_for_playwright ?a, expires = None\<rparr>)"
    using ha by (simp add: dict_get_def dict_get_default_def strip_leading_dot_def)
  have "valid_samesite_for_playwright ?a = ''Strict''"
    using sameSite_translation [OF ha, of no_float_strings] py_lower_STRICT
    by (simp add: dict_get_def)
  moreover have "valid_samesite_for_playwright ?b = ''None''"
    using sameSite_translation [OF hb, of no_float_strings]
    by (simp add: dict_get_def dict_get_default_def)
  moreover have "valid_samesite_for_playwright ?c = ''Lax''"
    using sameSite_translation [OF hc, of no_float_strings]
    by (simp add: dict_get_def dict_get_default_def)
  ultimately show ?thesis using ha conv by simp
qed

lemma list_all2_filter_member:
  assumes "list_all2 P (filter Q xs) ys" and "x \<in> set xs" and "Q x"
  shows "\<exists>y\<in>set ys. P x y"
proof -
  from assms(2,3) have "x \<in> set (filter Q xs)" by simp
  with assms(1) show ?thesis
    by (metis in_set_conv_nth list_all2_conv_all_nth)
qed

lemma list_all2_filter_source:
  assumes "list_all2 P (filter Q xs) ys" and "y \<in> set ys"
  shows "\<exists>x\<in>set xs. Q x \<and> P x y"
proof -
  from assms obtain i where "i < length ys" "ys ! i = y" by (auto simp: in_set_conv_nth)
  with assms(1) have "i < length (filter Q xs)" "P (filter Q xs ! i) y"
    by (auto simp: list_all2_conv_all_nth)
  moreover from this(1) have "filter Q xs ! i \<in> set (filter Q xs)" by (rule nth_mem)
  ultimately show ?thesis by auto
qed

lemma translate_cookies_list_all2:
  "translate_cookies pf scs = Inr out \<Longrightarrow>
     list_all2 (\<lambda>sc pc. convert_cookie pf sc = Inr (Some pc)) (filter has_name_and_value scs) out"
  using convert_loop_output [of pf scs "[]" out] by (simp add: translate_cookies_def)

lemma convert_cookie_kept:
  "convert_cookie pf sc = Inr (Some pc) \<Longrightarrow> truthy (name pc) \<and> val pc \<noteq> JNull"
  by (cases sc) (auto simp: Let_def missing_name_or_value_def split: if_splits sum.splits)

text \<open>
  Claim C2, as amended. When no record makes the translation raise, the output is, in
  input order, exactly the translations of the records that have a name and a value, so
  every record missing one of them is excluded and every record with both appears. The
  translation raises exactly when converting some record raises (an element that is not
  a dict, an expiry that \<^verbatim>\<open>float\<close> rejects, a truthy domain that is not a
  string), and then there is no output at all.
\<close>

theorem translate_cookies_output:
  "(translate_cookies pf scs = Inr out \<longrightarrow>
      list_all2 (\<lambda>sc pc. convert_cookie pf sc = Inr (Some pc)) (filter has_name_and_value scs) out
      \<and> (\<forall>pc\<in>set out. truthy (name pc) \<and> val pc \<noteq> JNull))
   \<and> ((\<exists>e. translate_cookies pf scs = Inl e) \<longleftrightarrow>
        (\<exists>sc\<in>set scs. \<exists>e. convert_cookie pf sc = Inl e))"
proof (intro conjI impI)
  assume ok: "translate_cookies pf scs = Inr out"
  then show all2: "list_all2 (\<lambda>sc pc. convert_cookie pf sc = Inr (Some pc))
      (filter has_name_and_value scs) out"
    by (rule translate_cookies_list_all2)
  show "\<forall>pc\<in>set out. truthy (name pc) \<and> val pc \<noteq> JNull"
  proof
    fix pc assume "pc \<in> set out"
    with all2 obtain sc where "convert_cookie pf sc = Inr (Some pc)"
      using list_all2_filter_source by fastforce
    then show "truthy (name pc) \<and> val pc \<noteq> JNull" by (rule convert_cookie_kept)
  qed
next
  show "(\<exists>e. translate_cookies pf scs = Inl e) \<longleftrightarrow>
        (\<exists>sc\<in>set scs. \<exists>e. convert_cookie pf sc = Inl e)"
    unfolding translate_cookies_def by (rule convert_loop_raises)
qed

text \<open>One record is kept (its leading dot stripped), two are skipped.\<close>

theorem translate_cookies_output_witness:
  "translate_cookies no_float_strings
      [JObj [(''name'', JStr ''sid''), (''value'', JStr ''1''), (''domain'', JStr ''.example.com'')],
       JObj [(''name'', JStr ''x'')],
       JObj [(''value'', JStr ''v'')]]
    = Inr [\<lparr>name = JStr ''sid'', val = JStr ''1'', domain = JStr ''example.com'',
            path = JStr ''/'', httpOnly = JBool False, secure = JBool False,
            sameSite = ''Lax'', expires = None\<rparr>]
   \<and> list_all2 (\<lambda>sc pc. convert_cookie no_float_strings sc = Inr (Some pc))
       (filter has_name_and_value
          [JObj [(''name'', JStr ''sid''), (''value'', JStr ''1''), (''domain'', JStr ''.example.com'')],
           JObj [(''name'', JStr ''x'')],
           JObj [(''value'', JStr ''v'')]])
       [\<lparr>name = JStr ''sid'', val = JStr ''1'', domain = JStr ''example.com'',
            path = JStr ''/'', httpOnly = JBool False, secure = JBool False,
            sameSite = ''Lax'', expires = None\<rparr>]"
proof -
  let ?scs = "[JObj [(''name'', JStr ''sid''), (''value'', JStr ''1''), (''domain'', JStr ''.example.com'')],
       JObj [(''name'', JStr ''x'')],
       JObj [(''value'', JStr ''v'')]]"
  let ?out = "[\<lparr>name = JStr ''sid'', val = JStr ''1'', domain = JStr ''example.com'',
            path = JStr ''/'', httpOnly = JBool False, secure = JBool False,
            sameSite = ''Lax'', expires = None\<rparr>]"
  have run: "translate_cookies no_float_strings ?scs = Inr ?out"
    by (simp add: translate_cookies_def missing_name_or_value_def dict_get_def
        dict_get_default_def valid_samesite_for_playwright_def strip_leading_dot_def
        startswith_def)
  with translate_cookies_output [of no_float_strings ?scs ?out] show ?thesis by blast
qed

text \<open>
  Claim C2 as stated fails: the first record has a name and a value, the second has an
  expiry that is a list, and no cookie reaches the browser context.
\<close>

theorem translate_cookies_all_or_nothing:
  "has_name_and_value (JObj [(''name'', JStr ''sid''), (''value'', JStr ''1'')])
   \<and> translate_cookies no_float_strings
        [JObj [(''name'', JStr ''sid''), (''value'', JStr ''1'')],
         JObj [(''name'', JStr ''t''), (''value'', JStr ''2''), (''expirationDate'', JArr [])]]
       = Inl TypeError
   \<and> load_playwright_cookies no_float_strings (Some (JArr
        [JObj [(''name'', JStr ''sid''), (''value'', JStr ''1'')],
         JObj [(''name'', JStr ''t''), (''value'', JStr ''2''), (''expirationDate'', JArr [])]]))
       = None"
  by (simp add: load_playwright_cookies_def translate_cookies_def missing_name_or_value_def
      dict_get_def dict_get_default_def valid_samesite_for_playwright_def strip_leading_dot_def)

text \<open>
  Claim C10. The guard is asymmetric: a record with a truthy name whose value is the
  empty string passes it and, when the translation returns, is in the output with that
  empty value; only a null or absent value excludes such a record, whereas an empty
  (or any falsy) name excludes the record.
\<close>

theorem missing_field_check_asymmetric:
  "(truthy (dict_get sc ''name'') \<and> dict_get sc ''value'' = JStr [] \<longrightarrow>
      \<not> missing_name_or_value sc \<and> convert_cookie pf (JObj sc) \<noteq> Inr None
      \<and> (\<forall>pc. convert_cookie pf (JObj sc) = Inr (Some pc) \<longrightarrow> val pc = JStr [])
      \<and> (\<forall>scs out. translate_cookies pf scs = Inr out \<and> JObj sc \<in> set scs \<longrightarrow>
            (\<exists>pc\<in>set out. convert_cookie pf (JObj sc) = Inr (Some pc))))
   \<and> (dict_get sc ''value'' = JNull \<longrightarrow> convert_cookie pf (JObj sc) = Inr None)
   \<and> (dict_get sc ''name'' = JStr [] \<longrightarrow> convert_cookie pf (JObj sc) = Inr None)
   \<and> (\<not> truthy (dict_get sc ''name'') \<longrightarrow> convert_cookie pf (JObj sc) = Inr None)
   \<and> (truthy (dict_get sc ''name'') \<longrightarrow>
        (convert_cookie pf (JObj sc) = Inr None \<longleftrightarrow> dict_get sc ''value'' = JNull))"
proof (intro conjI impI allI)
  assume h: "truthy (dict_get sc ''name'') \<and> dict_get sc ''value'' = JStr []"
  then show m: "\<not> missing_name_or_value sc" by (simp add: missing_name_or_value_def)
  then show "convert_cookie pf (JObj sc) \<noteq> Inr None"
    by (auto simp: Let_def split: sum.splits)
  show "val pc = JStr []" if "convert_cookie pf (JObj sc) = Inr (Some pc)" for pc
    using convert_cookie_fields(2) [OF that] h by simp
  show "\<exists>pc\<in>set out. convert_cookie pf (JObj sc) = Inr (Some pc)"
    if "translate_cookies pf scs = Inr out \<and> JObj sc \<in> set scs" for scs out
  proof -
    from that have "list_all2 (\<lambda>sc pc. convert_cookie pf sc = Inr (Some pc))
        (filter has_name_and_value scs) out"
      by (simp add: translate_cookies_list_all2)
    moreover have "has_name_and_value (JObj sc)" using m by simp
    ultimately show ?thesis using that list_all2_filter_member by fastforce
  qed
next
  assume "dict_get sc ''value'' = JNull"
  then show "convert_cookie pf (JObj sc) = Inr None" by (simp add: missing_name_or_value_def)
next
  assume "dict_get sc ''name'' = JStr []"
  then show "convert_cookie pf (JObj sc) = Inr None" by (simp add: missing_name_or_value_def)
next
  assume "\<not> truthy (dict_get sc ''name'')"
  then show "convert_cookie pf (JObj sc) = Inr None" by (simp add: missing_name_or_value_def)
next
  assume "truthy (dict_get sc ''name'')"
  then show "(convert_cookie pf (JObj sc) = Inr None) = (dict_get sc ''value'' = JNull)"
    by (auto simp: Let_def missing_name_or_value_def split: sum.splits)
qed

text \<open>An empty value is kept, an empty name is skipped.\<close>

theorem missing_field_check_asymmetric_witness:
  "translate_cookies no_float_strings
      [JObj [(''name'', JStr ''sid''), (''value'', JStr [])],
       JObj [(''name'', JStr []), (''value'', JStr ''v'')]]
    = Inr [\<lparr>name = JStr ''sid'', val = JStr [], domain = JNull,
            path = JStr ''/'', httpOnly = JBool False, secure = JBool False,
            sameSite = ''Lax'', expires = None\<rparr>]
   \<and> convert_cookie no_float_strings (JObj [(''name'', JStr []), (''value'', JStr ''v'')]) = Inr None
   \<and> convert_cookie no_float_strings (JObj [(''name'', JStr ''sid''), (''value'', JStr [])]) \<noteq> Inr None"
proof -
  let ?a = "[(''name'', JStr ''sid''), (''value'', JStr [])]"
  let ?b = "[(''name'', JStr []), (''value'', JStr ''v'')]"
  have a: "truthy (dict_get ?a ''name'') \<and> dict_get ?a ''value'' = JStr []"
    by (simp add: dict_get_def)
  have b: "dict_get ?b ''name'' = JStr []" by (simp add: dict_get_def)
  have run: "translate_cookies no_float_strings [JObj ?a, JObj ?b] =
      Inr [\<lparr>name = JStr ''sid'', val = JStr [], domain = JNull,
            path = JStr ''/'', httpOnly = JBool False, secure = JBool False,
            sameSite = ''Lax'', expires = None\<rparr>]"
    by (simp add: translate_cookies_def missing_name_or_value_def dict_get_def
        dict_get_default_def valid_samesite_for_playwright_def strip_leading_dot_def)
  from missing_field_check_asymmetric [of ?a no_float_strings] a
  have "convert_cookie no_float_strings (JObj ?a) \<noteq> Inr None" by blast
  moreover from missing_field_check_asymmetric [of ?b no_float_strings] b
  have "convert_cookie no_float_strings (JObj ?b) = Inr None" by blast
  ultimately show ?thesis using run by simp
qed

section \<open>Properties of the capture routine\<close>

lemma raises_simps [simp]:
  "raises Ok = None" "raises TimedOut = Some PlaywrightTimeoutError"
  "raises Failed = Some PlaywrightError"
  by (simp_all add: raises_def)

lemma raises_None_iff: "raises oc = None \<longleftrightarrow> oc = Ok"
  by (cases oc) simp_all

lemma capture_try_exc:
  "fst (capture_try env url p fs) = None \<longleftrightarrow> new_page env = Ok \<and> goto env = Ok \<and> shot env = Ok"
  by (cases "new_page env"; cases "goto env"; cases "shot env")
     (simp_all add: capture_try_def Let_def)

lemma captured_iff:
  "captured (take_playwright_screenshot env url p fs) \<longleftrightarrow>
     new_page env = Ok \<and> goto env = Ok \<and> shot env = Ok"
proof -
  obtain exc page fs1 evs where t: "capture_try env url p fs = (exc, page, fs1, evs)"
    by (cases "capture_try env url p fs") auto
  have "captured (take_playwright_screenshot env url p fs) \<longleftrightarrow> exc = None"
    using t by (cases exc) (simp_all add: take_playwright_screenshot_def Let_def split: prod.splits)
  moreover have "exc = None \<longleftrightarrow> new_page env = Ok \<and> goto env = Ok \<and> shot env = Ok"
    using capture_try_exc [of env url p fs] t by simp
  ultimately show ?thesis by simp
qed

lemma capture_try_page:
  "fst (snd (capture_try env url p fs)) \<longleftrightarrow> new_page env = Ok"
  by (cases "new_page env"; cases "goto env"; cases "shot env")
     (simp_all add: capture_try_def Let_def)

lemma page_state_after:
  "page_state (take_playwright_screenshot env url p fs) =
     (if new_page env = Ok then PageClosed else NoPage)"
proof -
  obtain exc page fs1 evs where t: "capture_try env url p fs = (exc, page, fs1, evs)"
    by (cases "capture_try env url p fs") auto
  have "page \<longleftrightarrow> new_page env = Ok" using capture_try_page [of env url p fs] t by simp
  then show ?thesis using t
    by (simp add: take_playwright_screenshot_def Let_def capture_finally_def page_status_of_def)
qed

lemma consent_click_no_sleep: "filter is_sleep (consent_click env) = []"
  by (cases "click env"; cases "settle env") (simp_all add: consent_click_def consent_try_def)

lemma page_dimensions_no_sleep: "filter is_sleep (page_dimensions env) = []"
  by (cases "dims env") (simp_all add: page_dimensions_def)

lemma capture_events_no_sleep:
  "filter is_sleep (events (take_playwright_screenshot env url p fs)) = []"
  by (cases "new_page env"; cases "goto env"; cases "shot env"; cases "err_shot env")
     (simp_all add: take_playwright_screenshot_def capture_try_def capture_except_def Let_def
        capture_finally_def page_status_of_def consent_click_no_sleep page_dimensions_no_sleep)

lemma files_after_captured:
  "captured (take_playwright_screenshot env url p fs) \<Longrightarrow>
     files_after (take_playwright_screenshot env url p fs) = insert p fs"
  by (simp add: captured_iff) (simp add: take_playwright_screenshot_def capture_try_def Let_def)

lemma files_after_failed:
  "\<not> captured (take_playwright_screenshot env url p fs) \<Longrightarrow>
     files_after (take_playwright_screenshot env url p fs) = fs \<or>
     files_after (take_playwright_screenshot env url p fs) = insert (error_screenshot_path p) fs"
  by (cases "new_page env"; cases "goto env"; cases "shot env"; cases "err_shot env")
     (simp_all add: take_playwright_screenshot_def capture_try_def capture_except_def Let_def
        capture_finally_def page_status_of_def)

lemma consent_click_no_close: "ClosePage \<notin> set (consent_click env)"
  by (cases "click env"; cases "settle env") (simp_all add: consent_click_def consent_try_def)

lemma page_dimensions_no_close: "ClosePage \<notin> set (page_dimensions env)"
  by (cases "dims env") (simp_all add: page_dimensions_def)

lemma close_page_event:
  "ClosePage \<in> set (events (take_playwright_screenshot env url p fs)) \<longleftrightarrow>
     new_page env = Ok \<and> \<not> closed_early env"
  by (cases "new_page env"; cases "goto env"; cases "shot env"; cases "err_shot env")
     (simp_all add: take_playwright_screenshot_def capture_try_def capture_except_def Let_def
        capture_finally_def page_status_of_def consent_click_no_close page_dimensions_no_close)

lemma close_page_last:
  "new_page env = Ok \<Longrightarrow> \<not> closed_early env \<Longrightarrow>
     last (events (take_playwright_screenshot env url p fs)) = ClosePage"
  by (cases "goto env"; cases "shot env"; cases "err_shot env")
     (simp_all add: take_playwright_screenshot_def capture_try_def capture_except_def Let_def
        capture_finally_def page_status_of_def)

section \<open>Properties of the upload step\<close>

lemma upload_and_record_result:
  "p \<in> fs \<Longrightarrow> fst (upload_and_record env row p fs) = None \<longleftrightarrow> upload env \<noteq> None \<and> update_ok env"
  by (auto simp: upload_and_record_def upload_file_def update_metadata_def split: option.splits)

lemma upload_and_record_no_sleep: "filter is_sleep (snd (upload_and_record env row p fs)) = []"
  by (auto simp: upload_and_record_def upload_file_def update_metadata_def split: option.splits)

lemma cleanup_no_sleep: "filter is_sleep (snd (cleanup env p fs)) = []"
  by (simp add: cleanup_def)

lemma cleanup_files:
  "p \<in> fs \<Longrightarrow> fst (cleanup env p fs) = (if remove_ok env then fs - {p} else fs)"
  by (simp add: cleanup_def)

lemma cleanup_events:
  "p \<in> fs \<Longrightarrow> snd (cleanup env p fs) =
     (if remove_ok env then [Remove p]
      else [Remove p, LogError ''Error removing local screenshot''])"
  by (simp add: cleanup_def)

lemma after_capture_counters:
  assumes "p \<in> files st"
  shows "successful_screenshots (after_capture env row p st) =
           successful_screenshots st + (if upload env \<noteq> None \<and> update_ok env then 1 else 0)"
    and "failed_screenshots (after_capture env row p st) =
           failed_screenshots st + (if upload env \<noteq> None \<and> update_ok env then 0 else 1)"
    and "skipped_urls (after_capture env row p st) = skipped_urls st"
  using upload_and_record_result [OF assms, of env row]
  by (auto simp: after_capture_def Let_def split: prod.splits option.splits)

lemma after_capture_files:
  assumes "p \<in> files st"
  shows "files (after_capture env row p st) = (if remove_ok env then files st - {p} else files st)"
  using assms cleanup_files [of p "files st" env]
  by (auto simp: after_capture_def Let_def split: prod.splits option.splits)

lemma after_capture_trace:
  assumes "p \<in> files st"
  shows "\<exists>evs. trace (after_capture env row p st) = trace st @ evs @
           (if remove_ok env then [Remove p]
            else [Remove p, LogError ''Error removing local screenshot''])
         \<and> filter is_sleep evs = [] \<and> hd evs = Upload p"
proof -
  obtain exc evs where u: "upload_and_record env row p (files st) = (exc, evs)"
    by (cases "upload_and_record env row p (files st)") auto
  have ns: "filter is_sleep evs = []" using upload_and_record_no_sleep [of env row p "files st"] u by simp
  have hd: "hd evs = Upload p" "evs \<noteq> []" using u
    by (auto simp: upload_and_record_def split: sum.splits)
  show ?thesis
  proof (cases exc)
    case None
    with u assms ns hd cleanup_events [of p "files st" env] show ?thesis
      by (auto simp: after_capture_def Let_def split: prod.splits)
  next
    case (Some e)
    with u assms ns hd cleanup_events [of p "files st" env] show ?thesis
      by (auto simp: after_capture_def Let_def split: prod.splits intro!: exI [of _ "evs @ [LogError ''Error during Drive upload or Sheet update'']"])
  qed
qed

section \<open>Properties of one loop iteration\<close>

lemma capture_and_store_counters:
  fixes cfg n i url env f st
  defines "r \<equiv> take_playwright_screenshot (capture env) url (screenshots_dir cfg, f) (files st)"
  defines "st' \<equiv> snd (capture_and_store cfg n i url env f st)"
  shows "successful_screenshots st' = successful_screenshots st +
           (if captured r \<and> upload env \<noteq> None \<and> update_ok env then 1 else 0)"
    and "failed_screenshots st' = failed_screenshots st +
           (if captured r \<and> upload env \<noteq> None \<and> update_ok env then 0 else 1)"
    and "skipped_urls st' = skipped_urls st"
proof -
  let ?p = "(screenshots_dir cfg, f)"
  let ?st1 = "st\<lparr>files := files_after r, trace := trace st @ events r\<rparr>"
  have in_files: "captured r \<Longrightarrow> ?p \<in> files ?st1"
    using files_after_captured [of "capture env" url ?p "files st"] by (simp add: r_def)
  show "successful_screenshots st' = successful_screenshots st +
           (if captured r \<and> upload env \<noteq> None \<and> update_ok env then 1 else 0)"
    using after_capture_counters(1) [OF in_files, of env "start_row_in_sheet cfg + i"]
    by (simp add: st'_def capture_and_store_def Let_def r_def [symmetric])
  show "failed_screenshots st' = failed_screenshots st +
           (if captured r \<and> upload env \<noteq> None \<and> update_ok env then 0 else 1)"
    using after_capture_counters(2) [OF in_files, of env "start_row_in_sheet cfg + i"]
    by (simp add: st'_def capture_and_store_def Let_def r_def [symmetric])
  show "skipped_urls st' = skipped_urls st"
    using after_capture_counters(3) [OF in_files, of env "start_row_in_sheet cfg + i"]
    by (simp add: st'_def capture_and_store_def Let_def r_def [symmetric])
qed

lemma capture_and_store_exc:
  "fst (capture_and_store cfg n i url env f st) = fst (delay cfg (i + 1) n)"
  by (simp add: capture_and_store_def Let_def)

lemma capture_and_store_counted:
  "counted (snd (capture_and_store cfg n i url env f st)) = counted st + 1"
  using capture_and_store_counters [of cfg n i url env f st] by (simp add: counted_def)

lemma capture_and_store_files:
  fixes cfg n i url env f st
  defines "r \<equiv> take_playwright_screenshot (capture env) url (screenshots_dir cfg, f) (files st)"
  defines "st' \<equiv> snd (capture_and_store cfg n i url env f st)"
  assumes "captured r"
  shows "files st' = (if remove_ok env then files st - {(screenshots_dir cfg, f)}
                      else insert (screenshots_dir cfg, f) (files st))"
proof -
  let ?p = "(screenshots_dir cfg, f)"
  let ?st1 = "st\<lparr>files := files_after r, trace := trace st @ events r\<rparr>"
  have fa: "files_after r = insert ?p (files st)"
    using files_after_captured [of "capture env" url ?p "files st"] assms(3) by (simp add: r_def)
  then have "?p \<in> files ?st1" by simp
  from after_capture_files [OF this, of env "start_row_in_sheet cfg + i"] fa assms(3)
  show ?thesis
    by (auto simp: st'_def capture_and_store_def Let_def r_def [symmetric])
qed

lemma capture_and_store_trace:
  fixes cfg n i url env f st
  defines "r \<equiv> take_playwright_screenshot (capture env) url (screenshots_dir cfg, f) (files st)"
  defines "st' \<equiv> snd (capture_and_store cfg n i url env f st)"
  shows "\<exists>evs. trace st' = trace st @ evs @ snd (delay cfg (i + 1) n) \<and> filter is_sleep evs = []
           \<and> (captured r \<longrightarrow> Remove (screenshots_dir cfg, f) \<in> set evs
                \<and> (\<not> remove_ok env \<longrightarrow> LogError ''Error removing local screenshot'' \<in> set evs))"
proof (cases "captured r")
  case True
  let ?p = "(screenshots_dir cfg, f)"
  let ?st1 = "st\<lparr>files := files_after r, trace := trace st @ events r\<rparr>"
  have "?p \<in> files ?st1"
    using files_after_captured [of "capture env" url ?p "files st"] True by (simp add: r_def)
  from after_capture_trace [OF this, of env "start_row_in_sheet cfg + i"]
  obtain evs where e: "trace (after_capture env (start_row_in_sheet cfg + i) ?p ?st1) =
      trace ?st1 @ evs @ (if remove_ok env then [Remove ?p]
            else [Remove ?p, LogError ''Error removing local screenshot''])"
    "filter is_sleep evs = []" by blast
  let ?all = "events r @ evs @ (if remove_ok env then [Remove ?p]
            else [Remove ?p, LogError ''Error removing local screenshot''])"
  have "trace st' = trace st @ ?all @ snd (delay cfg (i + 1) n)"
    using e(1) True by (simp add: st'_def capture_and_store_def Let_def r_def [symmetric])
  moreover have "filter is_sleep ?all = []"
    using e(2) capture_events_no_sleep [of "capture env" url ?p "files st"] by (simp add: r_def)
  moreover have "Remove ?p \<in> set ?all" by simp
  moreover have "\<not> remove_ok env \<longrightarrow> LogError ''Error removing local screenshot'' \<in> set ?all"
    by simp
  ultimately show ?thesis by blast
next
  case False
  let ?p = "(screenshots_dir cfg, f)"
  let ?all = "events r @ [LogError ''Failed to capture screenshot'']"
  have "trace st' = trace st @ ?all @ snd (delay cfg (i + 1) n)"
    using False by (simp add: st'_def capture_and_store_def Let_def r_def [symmetric])
  moreover have "filter is_sleep ?all = []"
    using capture_events_no_sleep [of "capture env" url ?p "files st"] by (simp add: r_def)
  ultimately show ?thesis using False by blast
qed

lemma process_row_invalid:
  "invalid_url url \<Longrightarrow> process_row cfg n i url env st =
     (None, st\<lparr>failed_screenshots := failed_screenshots st + 1,
               trace := trace st @ [LogError ''Invalid or empty URL format'']\<rparr>)"
  by (simp add: process_row_def)

lemma is_url_processed_answer: "is_url_processed a \<Longrightarrow> a \<noteq> None"
  by (cases a) (simp_all add: is_url_processed_def)

lemma process_row_skipped:
  "\<not> invalid_url url \<Longrightarrow> is_url_processed (marker env) \<Longrightarrow>
     process_row cfg n i url env st =
       (None, st\<lparr>skipped_urls := skipped_urls st + 1,
                 trace := trace st @ [SheetGet (start_row_in_sheet cfg + i)]\<rparr>)"
  using is_url_processed_answer [of "marker env"]
  by (simp add: process_row_def Let_def marker_check_def)

lemma process_row_aborts:
  "fst (process_row cfg n i url env st) \<noteq> None \<longleftrightarrow>
     reaches_capture (url, env) \<and>
       (fname env = None \<or> (i + 1 < n \<and> time_sleep (inter_url_delay cfg) \<noteq> None))"
  by (auto simp: process_row_def Let_def reaches_capture_def capture_and_store_exc delay_def
      split: option.splits)

lemma process_row_captures:
  "reaches_capture (url, env) \<Longrightarrow> fname env = Some f \<Longrightarrow>
     process_row cfg n i url env st =
       capture_and_store cfg n i url env f
         (st\<lparr>trace := trace st @ marker_check (start_row_in_sheet cfg + i) (marker env)\<rparr>)"
  by (simp add: process_row_def Let_def reaches_capture_def)

lemma marker_check_no_sleep: "filter is_sleep (marker_check row a) = []"
  by (simp add: marker_check_def)

lemma process_row_counted:
  "process_row cfg n i url env st = (None, st') \<Longrightarrow> counted st' = counted st + 1"
proof -
  assume a: "process_row cfg n i url env st = (None, st')"
  consider "invalid_url url" | "\<not> invalid_url url" "is_url_processed (marker env)"
    | "reaches_capture (url, env)" by (auto simp: reaches_capture_def)
  then show ?thesis
  proof cases
    case 1
    with a show ?thesis by (auto simp: process_row_invalid counted_def)
  next
    case 2
    with a show ?thesis by (auto simp: process_row_skipped counted_def)
  next
    case 3
    with a process_row_aborts [of cfg n i url env st] obtain f where f: "fname env = Some f"
      by (cases "fname env") auto
    let ?checked = "st\<lparr>trace := trace st @ marker_check (start_row_in_sheet cfg + i) (marker env)\<rparr>"
    have "st' = snd (capture_and_store cfg n i url env f ?checked)"
      using process_row_captures [OF 3 f, of cfg n i st] a by (metis snd_conv)
    with capture_and_store_counted [of cfg n i url env f ?checked]
    show ?thesis by (simp add: counted_def)
  qed
qed

lemma process_row_raised:
  assumes "process_row cfg n i url env st = (Some e, st')"
  shows "counted st' = counted st \<or> (counted st' = counted st + 1 \<and> i + 1 < n)"
proof (cases "fname env")
  case None
  with assms show ?thesis
    by (auto simp: process_row_def Let_def counted_def split: if_splits)
next
  case (Some f)
  from assms process_row_aborts [of cfg n i url env st] Some
  have rc: "reaches_capture (url, env)" and late: "i + 1 < n" by auto
  let ?checked = "st\<lparr>trace := trace st @ marker_check (start_row_in_sheet cfg + i) (marker env)\<rparr>"
  have "st' = snd (capture_and_store cfg n i url env f ?checked)"
    using process_row_captures [OF rc Some, of cfg n i st] assms by (metis snd_conv)
  with capture_and_store_counted [of cfg n i url env f ?checked] late
  show ?thesis by (simp add: counted_def)
qed

lemma run_rows_counted:
  "i + length rows = n \<Longrightarrow> run_rows cfg n i rows st = (exc, st') \<Longrightarrow>
     (exc = None \<longrightarrow> counted st' = counted st + length rows) \<and>
     (exc \<noteq> None \<longrightarrow> counted st' < counted st + length rows)"
proof (induction rows arbitrary: i st)
  case Nil
  then show ?case by simp
next
  case (Cons r rows)
  obtain url env where r: "r = (url, env)" by (cases r)
  obtain x st1 where p: "process_row cfg n i url env st = (x, st1)"
    by (cases "process_row cfg n i url env st")
  from Cons.prems(1) have len: "(i + 1) + length rows = n" by simp
  show ?case
  proof (cases x)
    case None
    with Cons.prems(2) r p have "run_rows cfg n (i + 1) rows st1 = (exc, st')" by simp
    from Cons.IH [OF len this] process_row_counted [of cfg n i url env st st1] p None
    show ?thesis by auto
  next
    case (Some e)
    with Cons.prems(2) r p have "exc = Some e" "st' = st1" by simp_all
    with process_row_raised [of cfg n i url env st e st1] p Some len show ?thesis by auto
  qed
qed

lemma process_row_captures_counters:
  fixes cfg n i url env f st
  assumes "reaches_capture (url, env)" and "fname env = Some f"
  defines "r \<equiv> take_playwright_screenshot (capture env) url (screenshots_dir cfg, f) (files st)"
  defines "st' \<equiv> snd (process_row cfg n i url env st)"
  shows "fst (process_row cfg n i url env st) = fst (delay cfg (i + 1) n)"
    and "successful_screenshots st' = successful_screenshots st +
           (if captured r \<and> upload env \<noteq> None \<and> update_ok env then 1 else 0)"
    and "failed_screenshots st' = failed_screenshots st +
           (if captured r \<and> upload env \<noteq> None \<and> update_ok env then 0 else 1)"
    and "skipped_urls st' = skipped_urls st"
proof -
  let ?checked = "st\<lparr>trace := trace st @ marker_check (start_row_in_sheet cfg + i) (marker env)\<rparr>"
  have p: "process_row cfg n i url env st = capture_and_store cfg n i url env f ?checked"
    using assms(1,2) by (rule process_row_captures)
  then show "fst (process_row cfg n i url env st) = fst (delay cfg (i + 1) n)"
    by (simp add: capture_and_store_exc)
  show "successful_screenshots st' = successful_screenshots st +
           (if captured r \<and> upload env \<noteq> None \<and> update_ok env then 1 else 0)"
    using capture_and_store_counters(1) [of cfg n i url env f ?checked] p
    by (simp add: st'_def r_def)
  show "failed_screenshots st' = failed_screenshots st +
           (if captured r \<and> upload env \<noteq> None \<and> update_ok env then 0 else 1)"
    using capture_and_store_counters(2) [of cfg n i url env f ?checked] p
    by (simp add: st'_def r_def)
  show "skipped_urls st' = skipped_urls st"
    using capture_and_store_counters(3) [of cfg n i url env f ?checked] p
    by (simp add: st'_def)
qed

lemma process_row_counted_in_one:
  assumes "process_row cfg n i url env st = (None, st')"
  shows "counted_in_one st st'"
proof -
  consider "invalid_url url" | "\<not> invalid_url url" "is_url_processed (marker env)"
    | "reaches_capture (url, env)" by (auto simp: reaches_capture_def)
  then show ?thesis
  proof cases
    case 1
    with assms show ?thesis by (auto simp: process_row_invalid counted_in_one_def)
  next
    case 2
    with assms show ?thesis by (auto simp: process_row_skipped counted_in_one_def)
  next
    case 3
    with assms process_row_aborts [of cfg n i url env st] obtain f where f: "fname env = Some f"
      by (cases "fname env") auto
    from process_row_captures_counters(2-4) [OF 3 f, where cfg = cfg and st = st and n = n and i = i] assms
    show ?thesis by (auto simp: counted_in_one_def)
  qed
qed

lemma three_rows_summary:
  assumes r1: "reaches_capture (u1, e1)" "fname e1 = Some f1"
      "new_page (capture e1) = Ok" "goto (capture e1) = Ok" "shot (capture e1) = Ok"
      "upload e1 \<noteq> None" "update_ok e1"
    and r2: "\<not> invalid_url u2" "is_url_processed (marker e2)"
    and r3: "reaches_capture (u3, e3)" "fname e3 = Some f3"
      "goto (capture e3) = TimedOut \<or> shot (capture e3) = TimedOut"
    and sl: "time_sleep (inter_url_delay cfg) = None"
  shows "final_summary cfg [(u1, e1), (u2, e2), (u3, e3)] fs =
           Inr \<lparr> sum_total = 3, sum_successful = 1, sum_skipped = 1, sum_failed = 1 \<rparr>"
proof -
  let ?st0 = "initial_state fs"
  obtain st1 where p1: "process_row cfg 3 0 u1 e1 ?st0 = (None, st1)"
    using process_row_captures_counters(1) [OF r1(1,2), where cfg = cfg and n = 3 and i = 0 and st = ?st0] sl
    by (cases "process_row cfg 3 0 u1 e1 ?st0") (auto simp: delay_def)
  have c1: "successful_screenshots st1 = 1" "failed_screenshots st1 = 0" "skipped_urls st1 = 0"
    using process_row_captures_counters(2-4) [OF r1(1,2), where cfg = cfg and n = 3 and i = 0 and st = ?st0] p1 r1(3-7)
    by (simp_all add: captured_iff initial_state_def)
  let ?st2 = "st1\<lparr>skipped_urls := skipped_urls st1 + 1,
                   trace := trace st1 @ [SheetGet (start_row_in_sheet cfg + (0 + 1))]\<rparr>"
  have p2: "process_row cfg 3 (0 + 1) u2 e2 st1 = (None, ?st2)"
    using r2 by (rule process_row_skipped)
  obtain st3 where p3: "process_row cfg 3 (0 + 1 + 1) u3 e3 ?st2 = (None, st3)"
    using process_row_captures_counters(1) [OF r3(1,2), where cfg = cfg and n = 3 and i = "0 + 1 + 1" and st = ?st2]
    by (cases "process_row cfg 3 (0 + 1 + 1) u3 e3 ?st2") (auto simp: delay_def)
  have c3: "successful_screenshots st3 = 1" "failed_screenshots st3 = 1" "skipped_urls st3 = 1"
    using process_row_captures_counters(2-4) [OF r3(1,2), where cfg = cfg and n = 3 and i = "0 + 1 + 1" and st = ?st2] p3 r3(3) c1
    by (auto simp: captured_iff)
  have "run_rows cfg 3 0 [(u1, e1), (u2, e2), (u3, e3)] ?st0 = (None, st3)"
    by (simp only: run_rows.simps p1 p2 p3 prod.case option.case)
  moreover have "length [(u1, e1), (u2, e2), (u3, e3)] = 3" by simp
  ultimately have "main_loop cfg [(u1, e1), (u2, e2), (u3, e3)] fs = (None, st3)"
    unfolding main_loop_def by (simp only:)
  then show ?thesis using c3 by (simp add: final_summary_def)
qed

lemma process_row_trace:
  assumes "process_row cfg n i url env st = (None, st')"
  shows "\<exists>evs. trace st' = trace st @ evs @
                  (if reaches_capture (url, env) \<and> i + 1 < n then [Sleep (inter_url_delay cfg)] else [])
               \<and> filter is_sleep evs = []"
proof -
  consider "invalid_url url" | "\<not> invalid_url url" "is_url_processed (marker env)"
    | "reaches_capture (url, env)" by (auto simp: reaches_capture_def)
  then show ?thesis
  proof cases
    case 1
    with assms show ?thesis by (auto simp: process_row_invalid reaches_capture_def)
  next
    case 2
    with assms show ?thesis by (auto simp: process_row_skipped reaches_capture_def)
  next
    case 3
    with assms process_row_aborts [of cfg n i url env st] obtain f where f: "fname env = Some f"
      by (cases "fname env") auto
    let ?m = "marker_check (start_row_in_sheet cfg + i) (marker env)"
    let ?checked = "st\<lparr>trace := trace st @ ?m\<rparr>"
    have "st' = snd (capture_and_store cfg n i url env f ?checked)"
      using process_row_captures [OF 3 f, of cfg n i st] assms by (metis snd_conv)
    with capture_and_store_trace [of cfg n i url env f ?checked]
    obtain evs where e: "trace st' = (trace st @ ?m) @ evs @ snd (delay cfg (i + 1) n)"
      "filter is_sleep evs = []" by auto
    have "trace st' = trace st @ (?m @ evs) @
        (if reaches_capture (url, env) \<and> i + 1 < n then [Sleep (inter_url_delay cfg)] else [])"
      using e(1) 3 by (simp add: delay_def)
    moreover have "filter is_sleep (?m @ evs) = []"
      using e(2) by (simp add: marker_check_no_sleep)
    ultimately show ?thesis by blast
  qed
qed

lemma process_row_sleeps:
  assumes "process_row cfg n i url env st = (None, st')"
  shows "filter is_sleep (trace st') = filter is_sleep (trace st) @
           (if reaches_capture (url, env) \<and> i + 1 < n then [Sleep (inter_url_delay cfg)] else [])"
  using process_row_trace [OF assms] by auto

lemma run_rows_sleeps:
  "i + length rows = n \<Longrightarrow> run_rows cfg n i rows st = (None, st') \<Longrightarrow>
     filter is_sleep (trace st') = filter is_sleep (trace st) @
       replicate (length (filter reaches_capture (butlast rows))) (Sleep (inter_url_delay cfg))"
proof (induction rows arbitrary: i st)
  case Nil
  then show ?case by simp
next
  case (Cons r rows)
  obtain url env where r: "r = (url, env)" by (cases r)
  obtain x st1 where p: "process_row cfg n i url env st = (x, st1)"
    by (cases "process_row cfg n i url env st")
  from Cons.prems(2) r p have x: "x = None" by (cases x) auto
  with Cons.prems(2) r p have rest: "run_rows cfg n (i + 1) rows st1 = (None, st')" by simp
  from Cons.prems(1) have len: "(i + 1) + length rows = n" by simp
  note ih = Cons.IH [OF len rest]
  note row = process_row_sleeps [OF p [unfolded x]]
  show ?case
  proof (cases rows)
    case Nil
    with ih row r Cons.prems(1) show ?thesis by simp
  next
    case (Cons r' rows')
    with len have "i + 1 < n" by simp
    with ih row r Cons show ?thesis by simp
  qed
qed

subsection \<open>Reading the sheet\<close>

lemma valid_url_not_blank: "\<not> invalid_url url \<Longrightarrow> \<not> blank_row (url # cells)"
  by (auto simp: invalid_url_def blank_row_def startswith_def)

lemma read_urls_position:
  assumes "\<forall>row\<in>set pre. \<not> blank_row row" and "\<not> blank_row (url # cells)"
  shows "length pre < length (read_urls (Some (pre @ (url # cells) # post)))"
    and "read_urls (Some (pre @ (url # cells) # post)) ! length pre = url"
proof -
  have keep: "filter (\<lambda>row. \<not> blank_row row) pre = pre" using assms(1) by simp
  have "read_urls (Some (pre @ (url # cells) # post)) =
      map hd pre @ url # map hd (filter (\<lambda>row. \<not> blank_row row) post)"
    using keep assms(2) by (simp add: read_urls_def)
  then show "length pre < length (read_urls (Some (pre @ (url # cells) # post)))"
    and "read_urls (Some (pre @ (url # cells) # post)) ! length pre = url"
    by (simp_all add: nth_append)
qed

lemma link_cell_processed:
  assumes "startswith (py_strip cell) ''https://drive.google.com''"
  shows "is_url_processed (sheets_get True cell)"
proof -
  have "cell \<noteq> []" using assms by (auto simp: startswith_def py_strip_def)
  with assms show ?thesis by (simp add: sheets_get_def is_url_processed_def)
qed

section \<open>Properties of the loop\<close>

lemma valid_http_a: "\<not> invalid_url ''http://a''" by code_simp
lemma valid_http_b: "\<not> invalid_url ''http://b''" by code_simp
lemma row_ok_not_processed: "\<not> is_url_processed (marker row_ok)" by code_simp

text \<open>
  In a run that no exception cuts short every row is counted once, so the counts of the
  summary add up to its total; in a run cut short they add up to less.
\<close>

lemma summary_adds_up:
  assumes "final_summary cfg rows fs = Inr s"
  shows "(fst (main_loop cfg rows fs) = None \<longrightarrow>
            sum_successful s + sum_skipped s + sum_failed s = sum_total s)
       \<and> (fst (main_loop cfg rows fs) \<noteq> None \<longrightarrow>
            sum_successful s + sum_skipped s + sum_failed s < sum_total s)"
proof -
  obtain exc stf where run: "run_rows cfg (length rows) 0 rows (initial_state fs) = (exc, stf)"
    by (cases "run_rows cfg (length rows) 0 rows (initial_state fs)")
  have c0: "counted (initial_state fs) = 0" by (simp add: counted_def initial_state_def)
  have s: "sum_successful s + sum_skipped s + sum_failed s = counted stf"
     "sum_total s = length rows"
    using assms run by (auto simp: final_summary_def main_loop_def counted_def Let_def split: if_splits)
  from run_rows_counted [OF _ run] run c0 s show ?thesis by (simp add: main_loop_def)
qed

text \<open>A negative delay makes \<^verbatim>\<open>time.sleep\<close> raise after the first row, which ends the loop.\<close>

lemma negative_delay_ends_loop:
  "main (sample_config\<lparr>inter_url_delay := Finite (- 1)\<rparr>) (sheet_of [''http://a'', ''http://b''])
      (\<lambda>i. services_ok) {}
    = Inr \<lparr> sum_total = 2, sum_successful = 1, sum_skipped = 0, sum_failed = 0 \<rparr>"
  by code_simp

text \<open>
  Claim C3 fails on the code. The first URL of the sheet passes the scheme check but
  cannot be parsed, so \<^verbatim>\<open>generate_screenshot_filename\<close> raises outside every handler
  of the loop body; the loop ends there and the summary reports total 2 with success 0,
  skipped 0 and failed 0: neither row is counted in any counter.
\<close>

theorem loop_cut_short_rows_uncounted:
  "main sample_config (sheet_of [''http://['', ''http://b'']) services_first_unparsed {}
    = Inr \<lparr> sum_total = 2, sum_successful = 0, sum_skipped = 0, sum_failed = 0 \<rparr>"
  by code_simp

text \<open>
  Claim C4, as amended. For a row whose capture returned True (the screenshot file was
  created), the iteration is left by no exception but that of the delay, if it raises
  (it follows the removal), the removal of the file is attempted whatever
  the upload-and-record step did, and the file is gone afterwards exactly when
  \<^verbatim>\<open>os.remove\<close> returns; when it raises, the failure is logged, the file stays and
  the row is counted as the upload-and-record step decided.
\<close>

theorem artifact_removed_unless_remove_fails:
  assumes "reaches_capture (url, env)" and "fname env = Some f"
    and "captured (take_playwright_screenshot (capture env) url (screenshots_dir cfg, f) (files st))"
  shows "fst (process_row cfg n i url env st) =
          (if i + 1 < n then time_sleep (inter_url_delay cfg) else None)
     \<and> (\<exists>evs. trace (snd (process_row cfg n i url env st)) = trace st @ evs
            \<and> Remove (screenshots_dir cfg, f) \<in> set evs
            \<and> (\<not> remove_ok env \<longrightarrow> LogError ''Error removing local screenshot'' \<in> set evs))
     \<and> (remove_ok env \<longrightarrow>
            (screenshots_dir cfg, f) \<notin> files (snd (process_row cfg n i url env st)))
     \<and> (\<not> remove_ok env \<longrightarrow>
            (screenshots_dir cfg, f) \<in> files (snd (process_row cfg n i url env st)))
     \<and> successful_screenshots (snd (process_row cfg n i url env st)) =
          successful_screenshots st + (if upload env \<noteq> None \<and> update_ok env then 1 else 0)
     \<and> failed_screenshots (snd (process_row cfg n i url env st)) =
          failed_screenshots st + (if upload env \<noteq> None \<and> update_ok env then 0 else 1)"
proof -
  let ?p = "(screenshots_dir cfg, f)"
  let ?m = "marker_check (start_row_in_sheet cfg + i) (marker env)"
  let ?checked = "st\<lparr>trace := trace st @ ?m\<rparr>"
  let ?st' = "snd (capture_and_store cfg n i url env f ?checked)"
  have p: "process_row cfg n i url env st =
      (if i + 1 < n then time_sleep (inter_url_delay cfg) else None, ?st')"
    using process_row_captures [OF assms(1,2), of cfg n i st]
      capture_and_store_exc [of cfg n i url env f ?checked]
    by (simp add: prod_eq_iff delay_def)
  have cap: "captured (take_playwright_screenshot (capture env) url ?p (files ?checked))"
    using assms(3) by simp
  have fs: "files ?st' = (if remove_ok env then files st - {?p} else insert ?p (files st))"
    using capture_and_store_files [OF cap] by simp
  from capture_and_store_trace [of cfg n i url env f ?checked] cap
  obtain evs where e: "trace ?st' = (trace st @ ?m) @ evs @ snd (delay cfg (i + 1) n)"
    "Remove ?p \<in> set evs"
    "\<not> remove_ok env \<longrightarrow> LogError ''Error removing local screenshot'' \<in> set evs"
    by auto
  have tr: "\<exists>evs. trace ?st' = trace st @ evs \<and> Remove ?p \<in> set evs
      \<and> (\<not> remove_ok env \<longrightarrow> LogError ''Error removing local screenshot'' \<in> set evs)"
    using e by (intro exI [of _ "?m @ evs @ snd (delay cfg (i + 1) n)"]) simp
  have cnt: "successful_screenshots ?st' =
          successful_screenshots st + (if upload env \<noteq> None \<and> update_ok env then 1 else 0)"
       "failed_screenshots ?st' =
          failed_screenshots st + (if upload env \<noteq> None \<and> update_ok env then 0 else 1)"
    using capture_and_store_counters(1,2) [of cfg n i url env f ?checked] cap by simp_all
  from p tr fs cnt show ?thesis by simp
qed

text \<open>A row whose upload raises and a row that succeeds: the file is gone in both.\<close>

theorem artifact_removed_unless_remove_fails_witness:
  "(''screenshots'', ''screenshot_a.png'') \<notin>
      files (snd (process_row sample_config 1 0 ''http://a'' (row_ok\<lparr>upload := None\<rparr>)
                    (initial_state {})))
   \<and> failed_screenshots (snd (process_row sample_config 1 0 ''http://a''
        (row_ok\<lparr>upload := None\<rparr>) (initial_state {}))) = 1
   \<and> (''screenshots'', ''screenshot_a.png'') \<notin>
      files (snd (process_row sample_config 1 0 ''http://a'' row_ok (initial_state {})))
   \<and> successful_screenshots (snd (process_row sample_config 1 0 ''http://a'' row_ok
        (initial_state {}))) = 1"
proof -
  let ?e = "row_ok\<lparr>upload := None\<rparr>"
  have r1: "reaches_capture (''http://a'', ?e)" "reaches_capture (''http://a'', row_ok)"
    using valid_http_a row_ok_not_processed by (simp_all add: reaches_capture_def row_ok_def)
  have f: "fname ?e = Some ''screenshot_a.png''" "fname row_ok = Some ''screenshot_a.png''"
    by (simp_all add: row_ok_def)
  have d: "screenshots_dir sample_config = ''screenshots''" by (simp add: sample_config_def)
  have c: "captured (take_playwright_screenshot (capture ?e) ''http://a''
             (screenshots_dir sample_config, ''screenshot_a.png'') (files (initial_state {})))"
     "captured (take_playwright_screenshot (capture row_ok) ''http://a''
             (screenshots_dir sample_config, ''screenshot_a.png'') (files (initial_state {})))"
    by (simp_all add: captured_iff row_ok_def browser_ok_def)
  have o: "remove_ok ?e" "remove_ok row_ok" "upload ?e = None" "upload row_ok \<noteq> None"
    "update_ok row_ok"
    by (simp_all add: row_ok_def)
  from artifact_removed_unless_remove_fails [OF r1(1) f(1) c(1), of 1 0]
       artifact_removed_unless_remove_fails [OF r1(2) f(2) c(2), of 1 0] o d
  show ?thesis by (simp add: initial_state_def)
qed

text \<open>
  Claim C4 as stated fails: when \<^verbatim>\<open>os.remove\<close> raises, the file is still there
  after the row, which is counted as a success.
\<close>

theorem artifact_left_when_remove_fails:
  "(''screenshots'', ''screenshot_a.png'') \<in>
      files (snd (process_row sample_config 1 0 ''http://a'' (row_ok\<lparr>remove_ok := False\<rparr>)
                    (initial_state {})))
   \<and> fst (process_row sample_config 1 0 ''http://a'' (row_ok\<lparr>remove_ok := False\<rparr>)
                    (initial_state {})) = None
   \<and> successful_screenshots (snd (process_row sample_config 1 0 ''http://a''
        (row_ok\<lparr>remove_ok := False\<rparr>) (initial_state {}))) = 1"
  by code_simp

text \<open>
  Claim C5, as amended. Take a row of the URL range that no blank URL cell precedes, so
  that the loop asks for the marker cell of this very row. If its URL passes the scheme
  check, the read of its marker cell returns, and that cell holds a link (trimmed, it
  starts with \<^verbatim>\<open>https://drive.google.com\<close>), then the row is counted as skipped and
  nothing else happens: the only call is the read of the marker cell (no capture, upload,
  sheet update or delay), and the loop goes on with the next row. A read that raises
  counts as "not processed".
\<close>

theorem processed_row_skipped:
  assumes "url_values sh = Some (pre @ (url # cells) # post)"
    and "\<forall>row\<in>set pre. \<not> blank_row row"
    and "\<not> invalid_url url"
    and "sheet_read_ok (services (length pre))"
    and "startswith (py_strip (marker_col sh (start_row_in_sheet cfg + length pre)))
           ''https://drive.google.com''"
  shows "length pre < length (rows_of cfg sh services)
       \<and> rows_of cfg sh services ! length pre =
           (url, row_env_at cfg sh (length pre) (services (length pre)))
       \<and> process_row cfg n (length pre) url
           (row_env_at cfg sh (length pre) (services (length pre))) st =
           (None, st\<lparr>skipped_urls := skipped_urls st + 1,
                     trace := trace st @ [SheetGet (start_row_in_sheet cfg + length pre)]\<rparr>)
       \<and> run_rows cfg n (length pre)
           ((url, row_env_at cfg sh (length pre) (services (length pre))) # rest) st =
           run_rows cfg n (length pre + 1) rest
             (st\<lparr>skipped_urls := skipped_urls st + 1,
                  trace := trace st @ [SheetGet (start_row_in_sheet cfg + length pre)]\<rparr>)
       \<and> (\<forall>i sv. \<not> sheet_read_ok sv \<longrightarrow> \<not> is_url_processed (marker (row_env_at cfg sh i sv)))"
proof -
  let ?k = "length pre"
  let ?env = "row_env_at cfg sh ?k (services ?k)"
  have nb: "\<not> blank_row (url # cells)" using assms(3) by (rule valid_url_not_blank)
  note pos = read_urls_position [OF assms(2) nb, of post]
  have len: "?k < length (rows_of cfg sh services)"
    using pos(1) assms(1) by (simp add: rows_of_def Let_def)
  have nth: "rows_of cfg sh services ! ?k = (url, ?env)"
    using pos assms(1) by (simp add: rows_of_def Let_def)
  have "marker ?env = sheets_get True (marker_col sh (start_row_in_sheet cfg + ?k))"
    using assms(4) by (simp add: row_env_at_def)
  with link_cell_processed [OF assms(5)] have proc: "is_url_processed (marker ?env)" by simp
  note step = process_row_skipped [OF assms(3) proc, of cfg n ?k st]
  have unread: "\<forall>i sv. \<not> sheet_read_ok sv \<longrightarrow> \<not> is_url_processed (marker (row_env_at cfg sh i sv))"
    by (simp add: row_env_at_def sheets_get_def is_url_processed_def)
  from len nth step unread show ?thesis by simp
qed

text \<open>The first row of the range, with a valid URL and a link in its marker cell.\<close>

theorem processed_row_skipped_witness:
  "process_row sample_config 1 0 ''http://a''
      (row_env_at sample_config (sheet_marked [''http://a'']) 0 services_ok) (initial_state {}) =
     (None, \<lparr> successful_screenshots = 0, failed_screenshots = 0, skipped_urls = 1,
              files = {}, trace = [SheetGet 2] \<rparr>)
   \<and> main sample_config (sheet_marked [''http://a'']) (\<lambda>i. services_ok) {} =
       Inr \<lparr> sum_total = 1, sum_successful = 0, sum_skipped = 1, sum_failed = 0 \<rparr>"
proof -
  have v: "url_values (sheet_marked [''http://a'']) = Some ([] @ (''http://a'' # []) # [])"
    by (simp add: sheet_marked_def)
  have b: "\<forall>row\<in>set ([]::string list list). \<not> blank_row row" by simp
  have r: "sheet_read_ok ((\<lambda>i. services_ok) (length ([]::string list list)))"
    by (simp add: services_ok_def)
  have l: "startswith (py_strip (marker_col (sheet_marked [''http://a''])
               (start_row_in_sheet sample_config + length ([]::string list list))))
             ''https://drive.google.com''"
    by code_simp
  have m: "main sample_config (sheet_marked [''http://a'']) (\<lambda>i. services_ok) {} =
       Inr \<lparr> sum_total = 1, sum_successful = 0, sum_skipped = 1, sum_failed = 0 \<rparr>"
    by code_simp
  from processed_row_skipped [OF v b valid_http_a r l, of 1 "initial_state {}"] m
  show ?thesis by (simp add: initial_state_def sample_config_def)
qed

text \<open>
  Claim C5 as stated fails: the scheme check comes first, so a row whose marker cell
  holds a link but whose URL is rejected is counted as failed, not as skipped.
\<close>

theorem processed_row_with_invalid_url_failed:
  "startswith (py_strip (marker_col (sheet_marked [''ftp://x'']) 2)) ''https://drive.google.com''
   \<and> main sample_config (sheet_marked [''ftp://x'']) (\<lambda>i. services_ok) {} =
       Inr \<lparr> sum_total = 1, sum_successful = 0, sum_skipped = 0, sum_failed = 1 \<rparr>"
  by code_simp

text \<open>
  After a blank URL cell the loop asks for the marker cell of an earlier sheet row: here
  the URL is in row 3 with a link in its marker cell, the loop reads the empty cell of
  row 2 and captures the row again.
\<close>

lemma marker_read_from_wrong_row:
  "read_urls (url_values sheet_gap) = [''http://a'']
   \<and> startswith (py_strip (marker_col sheet_gap 3)) ''https://drive.google.com''
   \<and> main sample_config sheet_gap (\<lambda>i. services_ok) {} =
       Inr \<lparr> sum_total = 1, sum_successful = 1, sum_skipped = 0, sum_failed = 0 \<rparr>"
  by code_simp

text \<open>
  Claim C6, as amended. A row whose URL is empty or, once surrounding white space is
  trimmed, begins with neither \<^verbatim>\<open>http://\<close> nor \<^verbatim>\<open>https://\<close> adds one to
  the failed counter, makes no call at all (only the error is logged), and the loop goes
  on with the next row.
\<close>

theorem invalid_url_counted_failed:
  assumes "url = [] \<or> \<not> (startswith (py_strip url) ''http://'' \<or> startswith (py_strip url) ''https://'')"
  shows "process_row cfg n i url env st =
           (None, st\<lparr>failed_screenshots := failed_screenshots st + 1,
                     trace := trace st @ [LogError ''Invalid or empty URL format'']\<rparr>)
       \<and> run_rows cfg n i ((url, env) # rest) st =
           run_rows cfg n (i + 1) rest
             (st\<lparr>failed_screenshots := failed_screenshots st + 1,
                  trace := trace st @ [LogError ''Invalid or empty URL format'']\<rparr>)"
proof -
  from assms have "invalid_url url" by (simp add: invalid_url_def)
  from process_row_invalid [OF this, of cfg n i env st] show ?thesis by simp
qed

lemma ftp_rejected:
  "\<not> (startswith (py_strip ''ftp://x'') ''http://'' \<or> startswith (py_strip ''ftp://x'') ''https://'')"
  by code_simp

text \<open>The two URLs of the specification: \<^verbatim>\<open>ftp://x\<close> and the empty string.\<close>

theorem invalid_url_counted_failed_witness:
  "process_row sample_config 2 0 ''ftp://x'' row_ok (initial_state {}) =
     (None, \<lparr> successful_screenshots = 0, failed_screenshots = 1, skipped_urls = 0,
              files = {}, trace = [LogError ''Invalid or empty URL format''] \<rparr>)
   \<and> process_row sample_config 2 0 [] row_ok (initial_state {}) =
     (None, \<lparr> successful_screenshots = 0, failed_screenshots = 1, skipped_urls = 0,
              files = {}, trace = [LogError ''Invalid or empty URL format''] \<rparr>)"
proof -
  have a: "''ftp://x'' = [] \<or> \<not> (startswith (py_strip ''ftp://x'') ''http://''
             \<or> startswith (py_strip ''ftp://x'') ''https://'')"
    using ftp_rejected by simp
  have b: "([]::string) = [] \<or> \<not> (startswith (py_strip []) ''http://''
             \<or> startswith (py_strip []) ''https://'')" by simp
  from invalid_url_counted_failed [OF a, of sample_config 2 0 row_ok "initial_state {}"]
       invalid_url_counted_failed [OF b, of sample_config 2 0 row_ok "initial_state {}"]
  show ?thesis by (simp add: initial_state_def)
qed

text \<open>
  Claim C6 as stated fails: a URL with a leading blank does not begin with either scheme,
  yet the check is made on the trimmed text, the row is not counted as failed and the
  capture is invoked.
\<close>

theorem url_with_leading_blank_accepted:
  "\<not> startswith '' http://a'' ''http://'' \<and> \<not> startswith '' http://a'' ''https://''
   \<and> failed_screenshots (snd (process_row sample_config 2 0 '' http://a'' row_ok
         (initial_state {}))) = 0
   \<and> NewPage \<in> set (trace (snd (process_row sample_config 2 0 '' http://a'' row_ok
         (initial_state {}))))"
  by code_simp

lemma consent_failure_warned:
  "click env \<noteq> Ok \<Longrightarrow> \<exists>msg. LogWarning msg \<in> set (consent_click env)"
  by (cases "click env") (auto simp: consent_click_def consent_try_def)

lemma capture_events_consent:
  "new_page env = Ok \<Longrightarrow> goto env = Ok \<Longrightarrow>
     set (consent_click env) \<subseteq> set (events (take_playwright_screenshot env url p fs))"
  by (cases "shot env"; cases "err_shot env")
     (auto simp: take_playwright_screenshot_def capture_try_def capture_except_def Let_def
        capture_finally_def page_status_of_def)

text \<open>
  Claim C7, as amended. The capture reports success exactly when opening the page, the
  navigation and the screenshot all return; the outcome of the consent click (and of the
  wait after it) never changes the result, and a failed click leaves a warning in the
  log.
\<close>

theorem consent_click_never_fails_capture:
  "captured (take_playwright_screenshot env url p fs) =
      (new_page env = Ok \<and> goto env = Ok \<and> shot env = Ok)
   \<and> captured (take_playwright_screenshot (env\<lparr>click := c, settle := s\<rparr>) url p fs) =
      captured (take_playwright_screenshot env url p fs)
   \<and> (new_page env = Ok \<and> goto env = Ok \<and> click env \<noteq> Ok \<longrightarrow>
        (\<exists>msg. LogWarning msg \<in> set (events (take_playwright_screenshot env url p fs))))"
proof (intro conjI impI)
  show "captured (take_playwright_screenshot env url p fs) =
      (new_page env = Ok \<and> goto env = Ok \<and> shot env = Ok)"
    by (rule captured_iff)
  show "captured (take_playwright_screenshot (env\<lparr>click := c, settle := s\<rparr>) url p fs) =
      captured (take_playwright_screenshot env url p fs)"
    by (simp add: captured_iff)
  assume "new_page env = Ok \<and> goto env = Ok \<and> click env \<noteq> Ok"
  with consent_failure_warned [of env] capture_events_consent [of env url p fs]
  show "\<exists>msg. LogWarning msg \<in> set (events (take_playwright_screenshot env url p fs))"
    by blast
qed

text \<open>The click times out and the capture still succeeds.\<close>

theorem consent_click_never_fails_capture_witness:
  "captured (take_playwright_screenshot (browser_ok\<lparr>click := TimedOut\<rparr>) ''http://a''
      (''screenshots'', ''screenshot_a.png'') {})
   \<and> (\<exists>msg. LogWarning msg \<in> set (events (take_playwright_screenshot
        (browser_ok\<lparr>click := TimedOut\<rparr>) ''http://a'' (''screenshots'', ''screenshot_a.png'') {})))"
  using consent_click_never_fails_capture [of "browser_ok\<lparr>click := TimedOut\<rparr>" "''http://a''"
      "(''screenshots'', ''screenshot_a.png'')" "{}"]
  by (simp add: browser_ok_def)

text \<open>
  Claim C7 as stated fails: when the page cannot be opened the capture reports failure,
  although no navigation and no screenshot was attempted.
\<close>

theorem page_open_failure_fails_capture:
  "take_playwright_screenshot (browser_ok\<lparr>new_page := Failed\<rparr>) ''http://a''
      (''screenshots'', ''screenshot_a.png'') {}
     = \<lparr> captured = False, page_state = NoPage, files_after = {},
          events = [NewPage, LogError ''An error occurred with Playwright''] \<rparr>"
  by code_simp

text \<open>
  Claim C8. Whenever a page was opened, it is closed when the capture returns, on the
  success path and on every error path: the routine closes it as its last call unless
  the browser had closed it already, and it never leaves a page open.
\<close>

theorem page_closed_on_exit:
  "(new_page env = Ok \<longrightarrow> page_state (take_playwright_screenshot env url p fs) = PageClosed)
   \<and> (new_page env = Ok \<and> \<not> closed_early env \<longrightarrow>
        last (events (take_playwright_screenshot env url p fs)) = ClosePage)
   \<and> (ClosePage \<in> set (events (take_playwright_screenshot env url p fs)) \<longleftrightarrow>
        new_page env = Ok \<and> \<not> closed_early env)
   \<and> page_state (take_playwright_screenshot env url p fs) \<noteq> PageOpen"
  using page_state_after [of env url p fs] close_page_last [of env url p fs]
    close_page_event [of env url p fs]
  by simp

text \<open>The success path, a navigation timeout and a screenshot error.\<close>

theorem page_closed_on_exit_witness:
  "page_state (take_playwright_screenshot browser_ok ''http://a'' (''d'', ''f.png'') {}) = PageClosed
   \<and> page_state (take_playwright_screenshot (browser_ok\<lparr>goto := TimedOut\<rparr>) ''http://a''
        (''d'', ''f.png'') {}) = PageClosed
   \<and> page_state (take_playwright_screenshot (browser_ok\<lparr>shot := Failed, err_shot := Failed\<rparr>)
        ''http://a'' (''d'', ''f.png'') {}) = PageClosed
   \<and> last (events (take_playwright_screenshot (browser_ok\<lparr>goto := TimedOut\<rparr>) ''http://a''
        (''d'', ''f.png'') {})) = ClosePage"
  using page_closed_on_exit [of browser_ok "''http://a''" "(''d'', ''f.png'')" "{}"]
    page_closed_on_exit [of "browser_ok\<lparr>goto := TimedOut\<rparr>" "''http://a''" "(''d'', ''f.png'')" "{}"]
    page_closed_on_exit [of "browser_ok\<lparr>shot := Failed, err_shot := Failed\<rparr>" "''http://a''"
      "(''d'', ''f.png'')" "{}"]
  by (simp add: browser_ok_def)

text \<open>
  Claim C9, as amended. The delay is the last event of an iteration, and it is there
  exactly when the row got as far as the capture (whether that succeeded or failed) and
  is not the last row. In a run that is not cut short the delays are as many as the rows,
  the last one excepted, that got as far as the capture; a row rejected by the scheme
  check or skipped as processed is followed by no delay, and no delay precedes the first
  row.
\<close>

theorem delay_after_captured_rows:
  "(process_row cfg n i url env st = (None, st') \<longrightarrow>
      (\<exists>evs. trace st' = trace st @ evs @
                (if reaches_capture (url, env) \<and> i + 1 < n then [Sleep (inter_url_delay cfg)] else [])
            \<and> filter is_sleep evs = []))
   \<and> (main_loop cfg rows fs = (None, st'') \<longrightarrow>
        filter is_sleep (trace st'') =
          replicate (length (filter reaches_capture (butlast rows))) (Sleep (inter_url_delay cfg)))"
proof (intro conjI impI)
  assume "process_row cfg n i url env st = (None, st')"
  then show "\<exists>evs. trace st' = trace st @ evs @
                (if reaches_capture (url, env) \<and> i + 1 < n then [Sleep (inter_url_delay cfg)] else [])
            \<and> filter is_sleep evs = []"
    by (rule process_row_trace)
next
  assume "main_loop cfg rows fs = (None, st'')"
  then have "run_rows cfg (length rows) 0 rows (initial_state fs) = (None, st'')"
    by (simp add: main_loop_def)
  from run_rows_sleeps [OF _ this]
  show "filter is_sleep (trace st'') =
          replicate (length (filter reaches_capture (butlast rows))) (Sleep (inter_url_delay cfg))"
    by (simp add: initial_state_def)
qed

lemma three_rows_run:
  "fst (main_loop sample_config
      [(''http://a'', row_ok),
       (''http://b'', row_ok\<lparr>capture := browser_ok\<lparr>goto := TimedOut\<rparr>\<rparr>),
       (''http://c'', row_ok)] {}) = None"
  by code_simp

text \<open>Three rows, the second failing in the capture: two delays.\<close>

theorem delay_after_captured_rows_witness:
  "filter is_sleep (trace (snd (main_loop sample_config
      [(''http://a'', row_ok),
       (''http://b'', row_ok\<lparr>capture := browser_ok\<lparr>goto := TimedOut\<rparr>\<rparr>),
       (''http://c'', row_ok)] {}))) = [Sleep (Finite 3), Sleep (Finite 3)]"
proof -
  let ?e2 = "row_ok\<lparr>capture := browser_ok\<lparr>goto := TimedOut\<rparr>\<rparr>"
  let ?rows = "[(''http://a'', row_ok), (''http://b'', ?e2), (''http://c'', row_ok)]"
  have run: "main_loop sample_config ?rows {} = (None, snd (main_loop sample_config ?rows {}))"
    using three_rows_run by (simp add: prod_eq_iff)
  have r: "reaches_capture (''http://a'', row_ok)" "reaches_capture (''http://b'', ?e2)"
    using valid_http_a valid_http_b row_ok_not_processed
    by (simp_all add: reaches_capture_def row_ok_def)
  from delay_after_captured_rows [of sample_config _ _ _ _ _ _ ?rows "{}"
      "snd (main_loop sample_config ?rows {})"] run r
  show ?thesis by (simp add: sample_config_def)
qed

text \<open>
  Claim C9 as stated fails: with two rows of which the first is rejected, or is skipped
  as processed, no delay is made between them.
\<close>

theorem no_delay_after_rejected_or_skipped_row:
  "filter is_sleep (trace (snd (main_loop sample_config
      [(''ftp://x'', row_ok), (''http://a'', row_ok)] {}))) = []
   \<and> filter is_sleep (trace (snd (main_loop sample_config
      [(''http://a'', row_done), (''http://b'', row_ok)] {}))) = []
   \<and> fst (main_loop sample_config [(''ftp://x'', row_ok), (''http://a'', row_ok)] {}) = None
   \<and> fst (main_loop sample_config [(''http://a'', row_done), (''http://b'', row_ok)] {}) = None"
  by code_simp

end
